theory Spec2Isabelle
  imports Main "HOL-Library.Option_ord"
begin

section \<open>Python values\<close>

text \<open>
  The scraper passes tenders around as dictionaries from field names to arbitrary Python
  values. \<open>pyval\<close> holds the kinds of value the pipeline puts into such a dictionary:
  \<open>None\<close>, booleans, integers, strings, \<open>pandas.Timestamp\<close> objects and plain
  \<open>datetime\<close> objects (what SQLAlchemy hands back for a \<open>DateTime\<close> column).
  A timestamp is an instant counted in microseconds.
\<close>

type_synonym timestamp = int

datatype pyval =
    PNone
  | PBool bool
  | PInt int
  | PStr string
  | PTimestamp timestamp
  | PDatetime timestamp

datatype py_error =
    AttributeError
  | TypeError
  | ValueError
  | OutOfBoundsDatetime
  | IntegrityError
  | InterfaceError
  | OverflowError
  | RequestException

text \<open>Python truthiness, as \<open>if x\<close> and \<open>not x\<close> read it.\<close>

fun truthy :: "pyval \<Rightarrow> bool" where
  "truthy PNone = False"
| "truthy (PBool b) = b"
| "truthy (PInt n) = (n \<noteq> 0)"
| "truthy (PStr s) = (s \<noteq> [])"
| "truthy (PTimestamp _) = True"
| "truthy (PDatetime _) = True"

section \<open>String operations used by the date normaliser\<close>

text \<open>
  Strings are lists of characters; the operations below are the ASCII behaviour of
  \<open>str.lower\<close>, the \<open>in\<close> test on strings, \<open>str.replace(old, '')\<close>,
  \<open>str.strip\<close> and the ordinal-suffix substitution
  \<open>re.sub(r'(\d)(st|nd|rd|th)', r'\1', s)\<close>.
\<close>

definition lower_char :: "char \<Rightarrow> char" where
  "lower_char c =
     (case map_of (zip ''ABCDEFGHIJKLMNOPQRSTUVWXYZ'' ''abcdefghijklmnopqrstuvwxyz'') c of
        Some l \<Rightarrow> l
      | None \<Rightarrow> c)"

definition lower :: "string \<Rightarrow> string" where
  "lower s = map lower_char s"

definition isdigit :: "char \<Rightarrow> bool" where
  "isdigit c = (c \<in> set ''0123456789'')"

text \<open>
  The ASCII characters \<open>str.isspace\<close> accepts: tab, line feed, vertical tab, form
  feed, carriage return, the four separators \<open>0x1c\<close> to \<open>0x1f\<close>, and the space.
\<close>

definition isspace :: "char \<Rightarrow> bool" where
  "isspace c =
     (c \<in> set [CHR 0x09, CHR 0x0A, CHR 0x0B, CHR 0x0C, CHR 0x0D,
                CHR 0x1C, CHR 0x1D, CHR 0x1E, CHR 0x1F, CHR '' ''])"

fun startswith :: "string \<Rightarrow> string \<Rightarrow> bool" where
  "startswith s [] = True"
| "startswith [] (p # ps) = False"
| "startswith (c # cs) (p # ps) = (c = p \<and> startswith cs ps)"

text \<open>\<open>contains s sub\<close> is Python's \<open>sub in s\<close>.\<close>

fun contains :: "string \<Rightarrow> string \<Rightarrow> bool" where
  "contains [] sub = (sub = [])"
| "contains (c # cs) sub = (startswith (c # cs) sub \<or> contains cs sub)"

text \<open>
  \<open>remove_all old s\<close> is \<open>s.replace(old, '')\<close> for a non-empty \<open>old\<close>: occurrences are
  found left to right and do not overlap.
\<close>

function remove_all :: "string \<Rightarrow> string \<Rightarrow> string" where
  "remove_all old [] = []"
| "remove_all old (c # cs) =
     (if old \<noteq> [] \<and> startswith (c # cs) old
      then remove_all old (drop (length old) (c # cs))
      else c # remove_all old cs)"
  by pat_completeness auto
termination
  by (relation "measure (\<lambda>(old, s). length s)") auto

fun strip_ordinals :: "string \<Rightarrow> string" where
  "strip_ordinals (c # a # b # rest) =
     (if isdigit c \<and> ([a, b] = ''st'' \<or> [a, b] = ''nd'' \<or> [a, b] = ''rd'' \<or> [a, b] = ''th'')
      then c # strip_ordinals rest
      else c # strip_ordinals (a # b # rest))"
| "strip_ordinals cs = cs"

definition strip :: "string \<Rightarrow> string" where
  "strip s = rev (dropWhile isspace (rev (dropWhile isspace s)))"

section \<open>The date normaliser: \<open>TenderScraper._parse_kenyan_date\<close>\<close>

text \<open>
  \<open>pandas.to_datetime\<close> is a library call; the normaliser takes it as the parameter
  \<open>to_datetime\<close>, applied to the cleaned text and to \<open>Some fmt\<close> for a call with
  \<open>format=fmt\<close> or \<open>None\<close> for the flexible parse. It returns a timestamp or the
  exception it raises.
\<close>

type_synonym to_datetime = "string \<Rightarrow> string option \<Rightarrow> py_error + timestamp"

definition blocklist :: "string list" where
  "blocklist = [''various'', ''multiple'', ''closing'', ''date'', ''www'']"

definition formats :: "string list" where
  "formats =
     [''%d %B %Y'', ''%B %d %Y'', ''%d/%m/%Y'', ''%Y-%m-%d'',
      ''%d-%m-%Y'', ''%d.%m.%Y'', ''%d %b %Y'', ''%b %d %Y'']"

text \<open>The cleaning steps of lines 143 to 147, in the source's order.\<close>

definition clean_date_str :: "string \<Rightarrow> string" where
  "clean_date_str date_str =
     (let s1 = remove_all ''HRS'' (remove_all ''hrs'' date_str);
          s2 = remove_all ''PM'' (remove_all ''AM'' s1);
          s3 = remove_all ''P.M.'' (remove_all ''A.M.'' s2);
          s4 = strip_ordinals s3
      in strip (remove_all '','' s4))"

text \<open>
  The loop over \<open>formats\<close>: the first format that \<open>to_datetime\<close> accepts returns;
  an exception of any kind moves on to the next format.
\<close>

fun try_formats :: "to_datetime \<Rightarrow> string \<Rightarrow> string list \<Rightarrow> timestamp option" where
  "try_formats td s [] = None"
| "try_formats td s (fmt # fmts) =
     (case td s (Some fmt) of
        Inr ts \<Rightarrow> Some ts
      | Inl _ \<Rightarrow> try_formats td s fmts)"

text \<open>
  The guard of line 138 runs outside the \<open>try\<close>: a falsy argument returns \<open>None\<close>,
  a string is searched for the blocklist, and any other truthy value has no
  \<open>lower\<close> method, which raises \<open>AttributeError\<close> to the caller. Everything after
  the guard is inside \<open>try ... except Exception\<close>, so a failure of the flexible parse
  returns \<open>None\<close>.
\<close>

definition parse_kenyan_date :: "to_datetime \<Rightarrow> pyval \<Rightarrow> py_error + timestamp option" where
  "parse_kenyan_date td v =
     (if \<not> truthy v then Inr None
      else
        (case v of
           PStr date_str \<Rightarrow>
             if list_ex (\<lambda>x. contains (lower date_str) x) blocklist then Inr None
             else
               (let s = clean_date_str date_str in
                  (case try_formats td s formats of
                     Some ts \<Rightarrow> Inr (Some ts)
                   | None \<Rightarrow>
                       (case td s None of
                          Inr ts \<Rightarrow> Inr (Some ts)
                        | Inl _ \<Rightarrow> Inr None)))
         | _ \<Rightarrow> Inl AttributeError))"

section \<open>A model of \<open>pandas.to_datetime\<close> with an explicit format\<close>

text \<open>
  With \<open>format=fmt\<close>, \<open>pandas.to_datetime\<close> parses as \<open>strptime\<close> does: the format
  is turned into a regular expression, one group per directive, compiled with
  \<open>IGNORECASE\<close>; the text has to match from its start and nothing may remain after the
  match. The model covers the directives the source uses (\<open>%d\<close>, \<open>%m\<close>, \<open>%Y\<close>,
  \<open>%B\<close>, \<open>%b\<close>, in the C locale), white space in the format (\<open>\s+\<close>) and literal
  characters. The alternatives of a group are listed in the order in which the regular
  expression tries them, so that the first complete match is the one the library finds.
\<close>

datatype directive = Day | Month | Year | MonthName | MonthAbbr | Space | Literal char

definition directive_of :: "char \<Rightarrow> directive option" where
  "directive_of c =
     (if c = CHR ''d'' then Some Day
      else if c = CHR ''m'' then Some Month
      else if c = CHR ''Y'' then Some Year
      else if c = CHR ''B'' then Some MonthName
      else if c = CHR ''b'' then Some MonthAbbr
      else None)"

function compile_format :: "string \<Rightarrow> directive list option" where
  "compile_format [] = Some []"
| "compile_format (c # cs) =
     (if c = CHR ''%'' then
        (case cs of
           [] \<Rightarrow> None
         | d # rest \<Rightarrow>
             (case directive_of d of
                None \<Rightarrow> None
              | Some x \<Rightarrow> map_option ((#) x) (compile_format rest)))
      else if isspace c then map_option ((#) Space) (compile_format (dropWhile isspace cs))
      else map_option ((#) (Literal c)) (compile_format cs))"
  by pat_completeness auto
termination
  by (relation "measure length") (auto simp: less_Suc_eq_le length_dropWhile_le)

definition digit_value :: "char \<Rightarrow> nat" where
  "digit_value c = (case map_of (zip ''0123456789'' [0, 1, 2, 3, 4, 5, 6, 7, 8, 9]) c of
                      Some n \<Rightarrow> n | None \<Rightarrow> 0)"

text \<open>\<open>%d\<close> is \<open>3[0-1]|[1-2]\d|0[1-9]|[1-9]| [1-9]\<close>.\<close>

definition day_alts :: "string \<Rightarrow> (nat \<times> string) list" where
  "day_alts s =
     (case s of
        a # b # rest \<Rightarrow>
          (if a = CHR ''3'' \<and> (b = CHR ''0'' \<or> b = CHR ''1'') then [(30 + digit_value b, rest)] else []) @
          (if (a = CHR ''1'' \<or> a = CHR ''2'') \<and> isdigit b then [(10 * digit_value a + digit_value b, rest)] else []) @
          (if a = CHR ''0'' \<and> isdigit b \<and> b \<noteq> CHR ''0'' then [(digit_value b, rest)] else []) @
          (if isdigit a \<and> a \<noteq> CHR ''0'' then [(digit_value a, b # rest)] else []) @
          (if a = CHR '' '' \<and> isdigit b \<and> b \<noteq> CHR ''0'' then [(digit_value b, rest)] else [])
      | [a] \<Rightarrow> (if isdigit a \<and> a \<noteq> CHR ''0'' then [(digit_value a, [])] else [])
      | [] \<Rightarrow> [])"

text \<open>\<open>%m\<close> is \<open>1[0-2]|0[1-9]|[1-9]\<close>.\<close>

definition month_alts :: "string \<Rightarrow> (nat \<times> string) list" where
  "month_alts s =
     (case s of
        a # b # rest \<Rightarrow>
          (if a = CHR ''1'' \<and> (b = CHR ''0'' \<or> b = CHR ''1'' \<or> b = CHR ''2'') then [(10 + digit_value b, rest)] else []) @
          (if a = CHR ''0'' \<and> isdigit b \<and> b \<noteq> CHR ''0'' then [(digit_value b, rest)] else []) @
          (if isdigit a \<and> a \<noteq> CHR ''0'' then [(digit_value a, b # rest)] else [])
      | [a] \<Rightarrow> (if isdigit a \<and> a \<noteq> CHR ''0'' then [(digit_value a, [])] else [])
      | [] \<Rightarrow> [])"

text \<open>\<open>%Y\<close> is \<open>\d\d\d\d\<close>.\<close>

definition year_alts :: "string \<Rightarrow> (nat \<times> string) list" where
  "year_alts s =
     (case s of
        a # b # c # d # rest \<Rightarrow>
          (if isdigit a \<and> isdigit b \<and> isdigit c \<and> isdigit d
           then [(1000 * digit_value a + 100 * digit_value b + 10 * digit_value c + digit_value d, rest)]
           else [])
      | _ \<Rightarrow> [])"

text \<open>
  \<open>%B\<close> and \<open>%b\<close> are alternations of the month names, the longest first, matched
  without regard to case.
\<close>

definition full_month_names :: "(nat \<times> string) list" where
  "full_month_names =
     [(9, ''september''), (2, ''february''), (11, ''november''), (12, ''december''),
      (1, ''january''), (10, ''october''), (8, ''august''), (3, ''march''), (4, ''april''),
      (6, ''june''), (7, ''july''), (5, ''may'')]"

definition abbr_month_names :: "(nat \<times> string) list" where
  "abbr_month_names =
     [(1, ''jan''), (2, ''feb''), (3, ''mar''), (4, ''apr''), (5, ''may''), (6, ''jun''),
      (7, ''jul''), (8, ''aug''), (9, ''sep''), (10, ''oct''), (11, ''nov''), (12, ''dec'')]"

definition name_alts :: "(nat \<times> string) list \<Rightarrow> string \<Rightarrow> (nat \<times> string) list" where
  "name_alts names s =
     concat (map (\<lambda>(i, name).
                    if lower (take (length name) s) = name then [(i, drop (length name) s)] else [])
                 names)"

text \<open>\<open>\s+\<close> is greedy: the whole run of white space first, then one character less.\<close>

definition space_alts :: "string \<Rightarrow> (nat \<times> string) list" where
  "space_alts s =
     map (\<lambda>k. (0, drop k s)) (rev [1 ..< Suc (length (takeWhile isspace s))])"

fun alts :: "directive \<Rightarrow> string \<Rightarrow> (nat \<times> string) list" where
  "alts Day s = day_alts s"
| "alts Month s = month_alts s"
| "alts Year s = year_alts s"
| "alts MonthName s = name_alts full_month_names s"
| "alts MonthAbbr s = name_alts abbr_month_names s"
| "alts Space s = space_alts s"
| "alts (Literal c) s =
     (case s of
        [] \<Rightarrow> []
      | x # rest \<Rightarrow> if lower_char x = lower_char c then [(0, rest)] else [])"

text \<open>
  All matches of a compiled format at the start of a text, in backtracking order, each
  with the values of its groups and the text it leaves.
\<close>

fun match_all :: "directive list \<Rightarrow> string \<Rightarrow> (directive \<times> nat) list
                    \<Rightarrow> ((directive \<times> nat) list \<times> string) list" where
  "match_all [] s groups = [(groups, s)]"
| "match_all (d # ds) s groups =
     concat (map (\<lambda>(v, rest). match_all ds rest (groups @ [(d, v)])) (alts d s))"

definition is_leap :: "int \<Rightarrow> bool" where
  "is_leap y = (y mod 4 = 0 \<and> (y mod 100 \<noteq> 0 \<or> y mod 400 = 0))"

definition days_in_month :: "int \<Rightarrow> nat \<Rightarrow> nat" where
  "days_in_month y m =
     (if m = 2 then (if is_leap y then 29 else 28)
      else if m = 4 \<or> m = 6 \<or> m = 9 \<or> m = 11 then 30
      else 31)"

text \<open>
  \<open>strptime s fmt\<close> gives the year, month and day, or the \<open>ValueError\<close> of a bad
  directive, of a text that does not match, of text left over after the match, or of a
  day the month does not have. A field the format does not mention has its default:
  year 1900, month 1, day 1.
\<close>

definition strptime :: "string \<Rightarrow> string \<Rightarrow> py_error + (int \<times> nat \<times> nat)" where
  "strptime s fmt =
     (case compile_format fmt of
        None \<Rightarrow> Inl ValueError
      | Some ds \<Rightarrow>
          (case match_all ds s [] of
             [] \<Rightarrow> Inl ValueError
           | (groups, rest) # _ \<Rightarrow>
               if rest \<noteq> [] then Inl ValueError
               else
                 (let year = (case map_of groups Year of Some y \<Rightarrow> int y | None \<Rightarrow> 1900);
                      month = (case map_of groups MonthName of
                                 Some m \<Rightarrow> m
                               | None \<Rightarrow>
                                   (case map_of groups MonthAbbr of
                                      Some m \<Rightarrow> m
                                    | None \<Rightarrow>
                                        (case map_of groups Month of Some m \<Rightarrow> m | None \<Rightarrow> 1)));
                      day = (case map_of groups Day of Some d \<Rightarrow> d | None \<Rightarrow> 1)
                  in if 1 \<le> year \<and> 1 \<le> day \<and> day \<le> days_in_month year month
                     then Inr (year, month, day)
                     else Inl ValueError)))"

text \<open>The number of days from 1970-01-01 to a date of the proleptic Gregorian calendar.\<close>

definition days_from_civil :: "int \<Rightarrow> nat \<Rightarrow> nat \<Rightarrow> int" where
  "days_from_civil y m d =
     (let y' = (if m \<le> 2 then y - 1 else y);
          era = y' div 400;
          yoe = y' - era * 400;
          mp = (int m + 9) mod 12;
          doy = (153 * mp + 2) div 5 + int d - 1;
          doe = yoe * 365 + yoe div 4 - yoe div 100 + doy
      in era * 146097 + doe - 719468)"

definition microseconds_per_day :: int where
  "microseconds_per_day = 86400000000"

text \<open>Midnight of a calendar date, as a timestamp.\<close>

definition midnight :: "int \<Rightarrow> nat \<Rightarrow> nat \<Rightarrow> timestamp" where
  "midnight y m d = days_from_civil y m d * microseconds_per_day"

text \<open>
  A \<open>pandas.Timestamp\<close> counts nanoseconds in 64 bits; a date outside that range raises
  \<open>OutOfBoundsDatetime\<close>. The flexible parse (no format) is the parameter \<open>flexible\<close>.
\<close>

definition pandas_to_datetime :: "(string \<Rightarrow> py_error + timestamp) \<Rightarrow> to_datetime" where
  "pandas_to_datetime flexible s fmt =
     (case fmt of
        None \<Rightarrow> flexible s
      | Some f \<Rightarrow>
          (case strptime s f of
             Inl e \<Rightarrow> Inl e
           | Inr (y, m, d) \<Rightarrow>
               (let ts = midnight y m d in
                  if - (2 ^ 63) < ts * 1000 \<and> ts * 1000 < 2 ^ 63 then Inr ts
                  else Inl OutOfBoundsDatetime)))"

section \<open>The persistence store: \<open>TenderRecord\<close> and \<open>TenderScraper._save_to_db\<close>\<close>

text \<open>
  A tender is a Python dictionary. \<open>tget\<close> is \<open>dict.get(key)\<close>, which answers
  \<open>None\<close> for a missing key, and \<open>tget_default\<close> is \<open>dict.get(key, default)\<close>.
\<close>

type_synonym tender = "string \<rightharpoonup> pyval"

definition tget :: "tender \<Rightarrow> string \<Rightarrow> pyval" where
  "tget t k = (case t k of None \<Rightarrow> PNone | Some v \<Rightarrow> v)"

definition tget_default :: "tender \<Rightarrow> string \<Rightarrow> pyval \<Rightarrow> pyval" where
  "tget_default t k d = (case t k of None \<Rightarrow> d | Some v \<Rightarrow> v)"

text \<open>
  What SQLite stores in a text column for a bound Python value: \<open>None\<close> is NULL, a
  string is itself, an integer of at most 64 bits is its decimal text and a boolean is
  \<open>1\<close> or \<open>0\<close> (the column's TEXT affinity); a larger integer raises
  \<open>OverflowError\<close>. A \<open>pandas.Timestamp\<close> is a type the driver does not support
  (\<open>InterfaceError\<close>); the model refuses a plain \<open>datetime\<close> in a text column the
  same way, since the pipeline never binds one there.
\<close>

function show_nat :: "nat \<Rightarrow> string" where
  "show_nat n =
     (if n < 10 then [''0123456789'' ! n]
      else show_nat (n div 10) @ [''0123456789'' ! (n mod 10)])"
  by pat_completeness auto
termination
  by (relation "measure id") auto

definition show_int :: "int \<Rightarrow> string" where
  "show_int i = (if i < 0 then CHR ''-'' # show_nat (nat (- i)) else show_nat (nat i))"

fun bind_text :: "pyval \<Rightarrow> py_error + string option" where
  "bind_text PNone = Inr None"
| "bind_text (PStr s) = Inr (Some s)"
| "bind_text (PInt i) =
     (if - (2 ^ 63) \<le> i \<and> i < 2 ^ 63 then Inr (Some (show_int i)) else Inl OverflowError)"
| "bind_text (PBool b) = Inr (Some (if b then ''1'' else ''0''))"
| "bind_text (PTimestamp _) = Inl InterfaceError"
| "bind_text (PDatetime _) = Inl InterfaceError"

definition bound :: "pyval \<Rightarrow> string option" where
  "bound v = (case bind_text v of Inr x \<Rightarrow> x | Inl _ \<Rightarrow> None)"

text \<open>
  The row of the \<open>tenders\<close> table. The columns \<open>id\<close> and \<open>value\<close> carry the suffix
  \<open>_column\<close>; a null column is \<open>None\<close>.
\<close>

record TenderRecord =
  id_column :: nat
  reference :: "string option"
  title :: "string option"
  description :: "string option"
  procuring_entity :: "string option"
  procurement_method :: "string option"
  category :: "string option"
  value_column :: "string option"
  currency :: "string option"
  document_url :: "string option"
  closing_date :: "timestamp option"
  published_date :: "timestamp option"
  source :: "string option"
  is_processed :: bool
  created_at :: timestamp
  updated_at :: timestamp

text \<open>The table is the list of its rows in insertion order.\<close>

type_synonym db = "TenderRecord list"





text \<open>\<open>update_first P f rows\<close> changes the first row that satisfies \<open>P\<close>: the object
  that \<open>.first()\<close> returned.\<close>

fun update_first :: "('a \<Rightarrow> bool) \<Rightarrow> ('a \<Rightarrow> 'a) \<Rightarrow> 'a list \<Rightarrow> 'a list" where
  "update_first P f [] = []"
| "update_first P f (x # xs) = (if P x then f x # xs else x # update_first P f xs)"



text \<open>The record of lines 379 to 393, and whether the insert can bind all its values.\<close>

definition new_record :: "nat \<Rightarrow> timestamp \<Rightarrow> tender \<Rightarrow> timestamp option \<Rightarrow> timestamp option \<Rightarrow> TenderRecord" where
  "new_record i now t closing published =
     \<lparr> id_column = i,
       reference = bound (tget t ''reference''),
       title = bound (tget t ''title''),
       description = bound (tget t ''description''),
       procuring_entity = bound (tget t ''procuring_entity''),
       procurement_method = bound (tget t ''procurement_method''),
       category = bound (tget t ''category''),
       value_column = bound (tget t ''value''),
       currency = bound (tget_default t ''currency'' (PStr ''KES'')),
       document_url = bound (tget t ''document_url''),
       closing_date = closing,
       published_date = published,
       source = bound (tget t ''source''),
       is_processed = False,
       created_at = now,
       updated_at = now \<rparr>"








section \<open>The fetcher: \<open>TenderScraper._make_request\<close>\<close>



















section \<open>A model of \<open>textwrap.shorten\<close>\<close>

text \<open>
  The formatter truncates titles and descriptions with \<open>textwrap.shorten\<close> of the
  standard library (CPython 3.11). \<open>shorten(text, width, placeholder)\<close> first collapses
  the whitespace of the text, \<open>' '.join(text.strip().split())\<close>, and then wraps the
  result with \<open>max_lines = 1\<close>; the definitions follow \<open>TextWrapper._munge_whitespace\<close>,
  \<open>_split\<close>, \<open>_handle_long_word\<close> and \<open>_wrap_chunks\<close> with the default options
  (\<open>expand_tabs\<close>, \<open>replace_whitespace\<close>, \<open>drop_whitespace\<close>, \<open>break_long_words\<close>
  and \<open>break_on_hyphens\<close> all true).

  \<open>is_blank c\<close> is \<open>c.strip() == ''\<close>; \<open>textwrap_whitespace\<close> is the module's
  \<open>_whitespace\<close>, \<open>'\t\n\x0b\x0c\r '\<close>.
\<close>

definition is_blank :: "string \<Rightarrow> bool" where
  "is_blank s = list_all isspace s"

definition textwrap_whitespace :: "char \<Rightarrow> bool" where
  "textwrap_whitespace c =
     (c \<in> set [CHR 0x09, CHR 0x0A, CHR 0x0B, CHR 0x0C, CHR 0x0D, CHR '' ''])"

text \<open>\<open>str.split()\<close> without a separator, \<open>sep.join\<close>, and the collapsed text.\<close>

function split_words :: "string \<Rightarrow> string list" where
  "split_words [] = []"
| "split_words (c # cs) =
     (if isspace c then split_words (dropWhile isspace cs)
      else takeWhile (\<lambda>x. \<not> isspace x) (c # cs) #
           split_words (dropWhile (\<lambda>x. \<not> isspace x) cs))"
  by pat_completeness auto
termination
  by (relation "measure length") (auto simp: less_Suc_eq_le length_dropWhile_le)

fun join :: "string \<Rightarrow> string list \<Rightarrow> string" where
  "join sep [] = []"
| "join sep [x] = x"
| "join sep (x # y # ys) = x @ sep @ join sep (y # ys)"

definition collapse :: "string \<Rightarrow> string" where
  "collapse text = join '' '' (split_words (strip text))"

text \<open>
  \<open>_munge_whitespace\<close> turns each whitespace character into a space (the collapsed text
  has no tab left to expand). \<open>_split\<close> cuts the text into chunks with the regular
  expression \<open>wordsep_re\<close>: a run of whitespace is one chunk, and a run of other
  characters is cut further at hyphens and dashes. The cutting of one such run is the
  parameter \<open>wordsep\<close>; \<open>re.split\<close> with a capturing pattern returns pieces that
  concatenate to the run. Empty chunks are dropped.
\<close>

definition munge_whitespace :: "string \<Rightarrow> string" where
  "munge_whitespace text = map (\<lambda>c. if textwrap_whitespace c then CHR '' '' else c) text"

function split_chunks :: "(string \<Rightarrow> string list) \<Rightarrow> string \<Rightarrow> string list" where
  "split_chunks wordsep [] = []"
| "split_chunks wordsep (c # cs) =
     (if textwrap_whitespace c
      then takeWhile textwrap_whitespace (c # cs) #
           split_chunks wordsep (dropWhile textwrap_whitespace cs)
      else wordsep (takeWhile (\<lambda>x. \<not> textwrap_whitespace x) (c # cs)) @
           split_chunks wordsep (dropWhile (\<lambda>x. \<not> textwrap_whitespace x) cs))"
  by pat_completeness auto
termination
  by (relation "measure (\<lambda>(w, s). length s)") (auto simp: less_Suc_eq_le length_dropWhile_le)

definition split_text :: "(string \<Rightarrow> string list) \<Rightarrow> string \<Rightarrow> string list" where
  "split_text wordsep text = filter (\<lambda>c. c \<noteq> []) (split_chunks wordsep text)"

text \<open>
  The inner \<open>while chunks\<close> loop of \<open>_wrap_chunks\<close>: chunks are moved to the current
  line as long as they fit.
\<close>

fun take_fitting :: "nat \<Rightarrow> string list \<Rightarrow> string list \<Rightarrow> nat
                      \<Rightarrow> string list \<times> nat \<times> string list" where
  "take_fitting width [] cur_line cur_len = (cur_line, cur_len, [])"
| "take_fitting width (c # chunks) cur_line cur_len =
     (if cur_len + length c \<le> width
      then take_fitting width chunks (cur_line @ [c]) (cur_len + length c)
      else (cur_line, cur_len, c # chunks))"

text \<open>
  \<open>_handle_long_word\<close>: a chunk longer than the width is cut at the space that is left,
  or after the last hyphen before it when there is one that is not at the start and has
  a character other than a hyphen before it. It returns the piece for the current line
  and the rest of the chunk.
\<close>

fun rfind :: "char \<Rightarrow> string \<Rightarrow> nat option" where
  "rfind x [] = None"
| "rfind x (c # cs) =
     (case rfind x cs of
        Some i \<Rightarrow> Some (Suc i)
      | None \<Rightarrow> if c = x then Some 0 else None)"

definition handle_long_word :: "nat \<Rightarrow> nat \<Rightarrow> string \<Rightarrow> string \<times> string" where
  "handle_long_word width cur_len chunk =
     (let space_left = (if width < 1 then 1 else width - cur_len);
          cut = (if length chunk > space_left
                 then (case rfind CHR ''-'' (take space_left chunk) of
                         Some hyphen \<Rightarrow>
                           if hyphen > 0 \<and> list_ex (\<lambda>c. c \<noteq> CHR ''-'') (take hyphen chunk)
                           then hyphen + 1 else space_left
                       | None \<Rightarrow> space_left)
                 else space_left)
      in (take cut chunk, drop cut chunk))"

text \<open>
  One round of the outer loop of \<open>_wrap_chunks\<close> up to the point where the line is
  complete: a leading blank chunk is dropped when a line has been written, chunks are
  taken while they fit, a chunk that is too long for any line is broken, and a trailing
  blank chunk is dropped. The result is the line, its length and the chunks left.
\<close>

definition fill_line :: "nat \<Rightarrow> bool \<Rightarrow> string list \<Rightarrow> string list \<times> nat \<times> string list" where
  "fill_line width started chunks =
     (let chunks1 = (case chunks of
                       [] \<Rightarrow> []
                     | c # cs \<Rightarrow> if is_blank c \<and> started then cs else chunks);
          (cur_line, cur_len, chunks2) = take_fitting width chunks1 [] 0;
          (cur_line, cur_len, chunks3) =
            (case chunks2 of
               [] \<Rightarrow> (cur_line, cur_len, chunks2)
             | c # cs \<Rightarrow>
                 if length c > width
                 then (let (piece, rest) = handle_long_word width cur_len c
                       in (cur_line @ [piece], length (concat (cur_line @ [piece])), rest # cs))
                 else (cur_line, cur_len, chunks2))
      in if cur_line \<noteq> [] \<and> is_blank (last cur_line)
         then (butlast cur_line, cur_len - length (last cur_line), chunks3)
         else (cur_line, cur_len, chunks3))"

text \<open>
  The \<open>while cur_line\<close> loop that makes room for the placeholder on the last permitted
  line, on the reversed line; \<open>None\<close> is the loop's \<open>else\<close> branch.
\<close>

fun add_placeholder :: "nat \<Rightarrow> string \<Rightarrow> string list \<Rightarrow> nat \<Rightarrow> string option" where
  "add_placeholder width placeholder [] cur_len = None"
| "add_placeholder width placeholder (c # rev_line) cur_len =
     (if \<not> is_blank c \<and> cur_len + length placeholder \<le> width
      then Some (concat (rev (c # rev_line)) @ placeholder)
      else add_placeholder width placeholder rev_line (cur_len - length c))"

definition rstrip :: "string \<Rightarrow> string" where
  "rstrip s = rev (dropWhile isspace (rev s))"

definition lstrip :: "string \<Rightarrow> string" where
  "lstrip s = dropWhile isspace s"

text \<open>
  The outer loop of \<open>_wrap_chunks\<close>. Every round consumes at least one chunk or
  shortens the first one, which \<open>chunks_size\<close> measures.
\<close>

definition chunks_size :: "string list \<Rightarrow> nat" where
  "chunks_size chunks = sum_list (map (\<lambda>c. Suc (length c)) chunks)"

lemma take_fitting_split:
  "take_fitting width chunks cur_line cur_len = (cur_line', cur_len', rest) \<Longrightarrow>
   \<exists>popped. chunks = popped @ rest \<and> cur_line' = cur_line @ popped \<and>
     cur_len' = cur_len + length (concat popped) \<and>
     (case rest of [] \<Rightarrow> True | c # _ \<Rightarrow> \<not> cur_len' + length c \<le> width)"
proof (induction width chunks cur_line cur_len rule: take_fitting.induct)
  case (1 width cur_line cur_len)
  then show ?case by simp
next
  case (2 width c chunks cur_line cur_len)
  show ?case
  proof (cases "cur_len + length c \<le> width")
    case True
    with "2.prems" have "take_fitting width chunks (cur_line @ [c]) (cur_len + length c)
        = (cur_line', cur_len', rest)" by simp
    from "2.IH" [OF True this] obtain popped where
      "chunks = popped @ rest" "cur_line' = (cur_line @ [c]) @ popped"
      "cur_len' = cur_len + length c + length (concat popped)"
      "case rest of [] \<Rightarrow> True | c # _ \<Rightarrow> \<not> cur_len' + length c \<le> width"
      by blast
    then show ?thesis
      by (intro exI [of _ "c # popped"]) simp
  next
    case False
    with "2.prems" show ?thesis
      by (intro exI [of _ "[]"]) auto
  qed
qed

lemma chunks_size_append [simp]: "chunks_size (xs @ ys) = chunks_size xs + chunks_size ys"
  by (simp add: chunks_size_def)

lemma chunks_size_Cons [simp]: "chunks_size (x # xs) = Suc (length x) + chunks_size xs"
  by (simp add: chunks_size_def)

lemma chunks_size_Nil [simp]: "chunks_size [] = 0"
  by (simp add: chunks_size_def)

lemma handle_long_word_shorter:
  assumes "cur_len < width" "width < length chunk"
    and "handle_long_word width cur_len chunk = (piece, rest)"
  shows "length rest < length chunk"
proof -
  let ?space = "width - cur_len"
  from assms(1) have pos: "0 < ?space" by simp
  have "rfind x s = Some i \<Longrightarrow> i < length s" for x s i
    by (induction s arbitrary: i) (auto split: option.splits if_splits)
  then have "rfind CHR ''-'' (take ?space chunk) = Some h \<Longrightarrow> h < ?space" for h
    by fastforce
  with assms pos show ?thesis
    by (auto simp: handle_long_word_def Let_def split: if_splits option.splits)
qed

lemma fill_line_progress:
  assumes "chunks \<noteq> []" "0 < width"
    and "fill_line width started chunks = (cur_line, cur_len, rest)"
  shows "chunks_size rest < chunks_size chunks"
proof -
  define chunks1 where "chunks1 =
    (case chunks of [] \<Rightarrow> [] | c # cs \<Rightarrow> if is_blank c \<and> started then cs else chunks)"
  have c1: "chunks_size chunks1 \<le> chunks_size chunks"
    and c1': "chunks1 = [] \<Longrightarrow> chunks_size chunks1 < chunks_size chunks"
    using assms(1) by (auto simp: chunks1_def split: list.splits)
  obtain cl len chunks2 where tf: "take_fitting width chunks1 [] 0 = (cl, len, chunks2)"
    by (cases "take_fitting width chunks1 [] 0") auto
  from take_fitting_split [OF tf] obtain popped where
    p: "chunks1 = popped @ chunks2" "cl = popped" "len = length (concat popped)"
       "case chunks2 of [] \<Rightarrow> True | c # _ \<Rightarrow> \<not> len + length c \<le> width"
    by auto
  have rest: "rest = (case chunks2 of
               [] \<Rightarrow> chunks2
             | c # cs \<Rightarrow>
                 if length c > width
                 then snd (handle_long_word width len c) # cs
                 else chunks2)"
    using assms(3) tf
    by (auto simp: fill_line_def chunks1_def [symmetric] Let_def
        split: list.splits if_splits prod.splits)
  show ?thesis
  proof (cases chunks2)
    case Nil
    with rest have "rest = []" by simp
    with assms(1) show ?thesis by (cases chunks) auto
  next
    case (Cons c cs)
    show ?thesis
    proof (cases "length c > width")
      case False
      with Cons rest have r: "rest = chunks2" by simp
      from False Cons p(4) have "len \<noteq> 0" by auto
      with p(3) have "popped \<noteq> []" by auto
      then have "0 < chunks_size popped" by (cases popped) auto
      with r p(1) c1 show ?thesis by simp
    next
      case True
      with Cons rest have r: "rest = snd (handle_long_word width len c) # cs" by simp
      show ?thesis
      proof (cases "popped = []")
        case True
        with p(3) have "len = 0" by simp
        with assms(2) \<open>length c > width\<close>
          handle_long_word_shorter [of len width c "fst (handle_long_word width len c)"
            "snd (handle_long_word width len c)"]
        have "length (snd (handle_long_word width len c)) < length c" by simp
        with r Cons p(1) True c1 show ?thesis by simp
      next
        case False
        then have pp: "0 < chunks_size popped" by (cases popped) auto
        have "length (snd (handle_long_word width len c)) \<le> length c"
          by (simp add: handle_long_word_def Let_def split: option.splits)
        with r Cons p(1) pp c1 show ?thesis by simp
      qed
    qed
  qed
qed

lemma fill_line_progress_sym:
  "(cur_line, cur_len, rest) = fill_line width started chunks \<Longrightarrow> chunks \<noteq> [] \<Longrightarrow>
   0 < width \<Longrightarrow> chunks_size rest < chunks_size chunks"
  using fill_line_progress [of chunks width started cur_line cur_len rest] by simp

function wrap_loop :: "nat \<Rightarrow> nat \<Rightarrow> string \<Rightarrow> string list \<Rightarrow> string list \<Rightarrow> string list" where
  "wrap_loop width max_lines placeholder lines chunks =
     (if chunks = [] \<or> width = 0 then lines
      else
        (case fill_line width (lines \<noteq> []) chunks of
           (cur_line, cur_len, rest) \<Rightarrow>
             if cur_line = [] then wrap_loop width max_lines placeholder lines rest
             else if length lines + 1 < max_lines \<or>
                     ((rest = [] \<or> (length rest = 1 \<and> is_blank (hd rest))) \<and> cur_len \<le> width)
             then wrap_loop width max_lines placeholder (lines @ [concat cur_line]) rest
             else
               (case add_placeholder width placeholder (rev cur_line) cur_len of
                  Some line \<Rightarrow> lines @ [line]
                | None \<Rightarrow>
                    if lines \<noteq> [] \<and> length (rstrip (last lines)) + length placeholder \<le> width
                    then butlast lines @ [rstrip (last lines) @ placeholder]
                    else lines @ [lstrip placeholder])))"
  by pat_completeness auto
termination
  by (relation "measure (\<lambda>(width, max_lines, placeholder, lines, chunks). chunks_size chunks)")
     (auto dest: fill_line_progress_sym)

declare wrap_loop.simps [simp del]

text \<open>
  \<open>_wrap_chunks\<close> raises \<open>ValueError\<close> for a width that is not positive and for a
  placeholder that does not fit the width. \<open>shorten\<close> joins the lines of the result.
\<close>

definition wrap_chunks :: "nat \<Rightarrow> nat \<Rightarrow> string \<Rightarrow> string list \<Rightarrow> py_error + string list" where
  "wrap_chunks width max_lines placeholder chunks =
     (if width = 0 then Inl ValueError
      else if length (lstrip placeholder) > width then Inl ValueError
      else Inr (wrap_loop width max_lines placeholder [] chunks))"

definition shorten :: "(string \<Rightarrow> string list) \<Rightarrow> string \<Rightarrow> nat \<Rightarrow> string \<Rightarrow> py_error + string" where
  "shorten wordsep text width placeholder =
     (case wrap_chunks width 1 placeholder
             (split_text wordsep (munge_whitespace (collapse text))) of
        Inl e \<Rightarrow> Inl e
      | Inr lines \<Rightarrow> Inr (join [CHR 0x0A] lines))"

section \<open>The mobile formatter: \<open>TenderScraper._format_tender_for_mobile\<close>\<close>

text \<open>
  The formatter calls \<open>dateutil.parser.parse\<close>, \<open>datetime.isoformat\<close>, the zone of the
  machine (for \<open>astimezone\<close> on a datetime without zone) and \<open>textwrap\<close>. They are the
  fields of \<open>libs\<close>: \<open>parse\<close> answers for a string, with a datetime that carries a
  zone (\<open>Aware\<close>, an instant) or none (\<open>Naive\<close>, a wall-clock reading) or with the
  exception raised; \<open>isoformat\<close> prints an instant in East Africa Time;
  \<open>local_offset\<close> is the offset of the machine's zone; \<open>wordsep_re\<close> is the cutting of
  a word by \<open>textwrap\<close>'s regular expression.

  \<open>parser.parse\<close> accepts a string or a stream only: for any other value (a
  \<open>datetime\<close>, a \<open>pandas.Timestamp\<close>, a number) it raises \<open>TypeError\<close>.
\<close>

datatype datetime = Naive timestamp | Aware timestamp

record libs =
  parse :: "string \<Rightarrow> py_error + datetime"
  isoformat :: "timestamp \<Rightarrow> string"
  local_offset :: int
  wordsep_re :: "string \<Rightarrow> string list"

definition eat_offset :: int where
  "eat_offset = 3 * 3600 * 1000000"

definition parser_parse :: "libs \<Rightarrow> pyval \<Rightarrow> py_error + datetime" where
  "parser_parse lib v = (case v of PStr s \<Rightarrow> parse lib s | _ \<Rightarrow> Inl TypeError)"

text \<open>
  \<open>eat.localize\<close> reads a datetime without zone as East Africa Time;
  \<open>d.astimezone(eat)\<close> reads one as the machine's local time.
\<close>

definition localize :: "datetime \<Rightarrow> timestamp" where
  "localize d = (case d of Naive wall \<Rightarrow> wall - eat_offset | Aware instant \<Rightarrow> instant)"

definition astimezone :: "libs \<Rightarrow> datetime \<Rightarrow> timestamp" where
  "astimezone lib d =
     (case d of Naive wall \<Rightarrow> wall - local_offset lib | Aware instant \<Rightarrow> instant)"

text \<open>
  Lines 182 to 189, and 192 to 199 for the published date: a truthy date field is parsed
  and replaced by its ISO text, or by \<open>None\<close> when anything in the block raises.
\<close>

definition localize_field :: "libs \<Rightarrow> string \<Rightarrow> tender \<Rightarrow> tender" where
  "localize_field lib k t =
     (if truthy (tget t k) then
        (case parser_parse lib (tget t k) of
           Inr d \<Rightarrow> t(k \<mapsto> PStr (isoformat lib (localize d)))
         | Inl _ \<Rightarrow> t(k \<mapsto> PNone))
      else t)"

text \<open>
  Lines 204 to 212: only under \<open>if tender.get('closing_date')\<close> are \<open>days_remaining\<close>
  and \<open>status\<close> written. \<open>timedelta.days\<close> rounds towards minus infinity, as \<open>div\<close>
  does.
\<close>

definition status_of :: "int \<Rightarrow> string" where
  "status_of days_remaining =
     (if days_remaining < 0 then ''closed''
      else if days_remaining \<le> 7 then ''closing_soon''
      else ''open'')"

definition add_status :: "libs \<Rightarrow> timestamp \<Rightarrow> tender \<Rightarrow> tender" where
  "add_status lib now t =
     (if truthy (tget t ''closing_date'') then
        (case parser_parse lib (tget t ''closing_date'') of
           Inr d \<Rightarrow>
             (let days_remaining = (astimezone lib d - now) div microseconds_per_day
              in t(''days_remaining'' \<mapsto> PInt days_remaining,
                   ''status'' \<mapsto> PStr (status_of days_remaining)))
         | Inl _ \<Rightarrow> t(''days_remaining'' \<mapsto> PNone, ''status'' \<mapsto> PStr ''unknown''))
      else t)"

text \<open>
  Lines 215 to 219: a truthy title or description is shortened. \<open>textwrap.shorten\<close>
  starts with \<open>text.strip()\<close>, which a truthy value that is no string does not have:
  \<open>AttributeError\<close>.
\<close>

definition shorten_field :: "libs \<Rightarrow> string \<Rightarrow> nat \<Rightarrow> tender \<Rightarrow> py_error + tender" where
  "shorten_field lib k width t =
     (if truthy (tget t k) then
        (case tget t k of
           PStr s \<Rightarrow>
             (case shorten (wordsep_re lib) s width ''...'' of
                Inr r \<Rightarrow> Inr (t(k \<mapsto> PStr r))
              | Inl e \<Rightarrow> Inl e)
         | _ \<Rightarrow> Inl AttributeError)
      else Inr t)"

text \<open>
  The whole body runs under \<open>try\<close>; the handler of line 227 returns the dictionary as
  far as it has been rewritten. \<open>now\<close> is the clock reading of line 202.
\<close>

definition format_tender_for_mobile :: "libs \<Rightarrow> timestamp \<Rightarrow> tender \<Rightarrow> tender" where
  "format_tender_for_mobile lib now tender =
     (let t1 = localize_field lib ''closing_date'' tender;
          t2 = localize_field lib ''published_date'' t1;
          t3 = add_status lib now t2
      in case shorten_field lib ''title'' 100 t3 of
           Inl _ \<Rightarrow> t3
         | Inr t4 \<Rightarrow>
             (case shorten_field lib ''description'' 200 t4 of
                Inl _ \<Rightarrow> t4
              | Inr t5 \<Rightarrow>
                  t5(''last_updated'' \<mapsto> PStr (isoformat lib now),
                     ''offline_available'' \<mapsto> PBool True)))"

section \<open>The read-side query: \<open>TenderScraper.get_mobile_tenders\<close>\<close>

text \<open>
  The query runs on the default engine, \<open>sqlite:///tenders.db\<close> (line 53). \<open>ilike\<close>
  compiles to \<open>lower(column) LIKE lower(pattern)\<close>, where \<open>%\<close> matches any run of
  characters and \<open>_\<close> one character, and where a NULL column matches nothing. A
  comparison with a NULL closing date is not true, so the record is filtered out.
\<close>

fun like :: "string \<Rightarrow> string \<Rightarrow> bool" where
  "like [] s = (s = [])"
| "like (p # ps) [] = (p = CHR ''%'' \<and> like ps [])"
| "like (p # ps) (c # cs) =
     (if p = CHR ''%'' then like ps (c # cs) \<or> like (p # ps) cs
      else if p = CHR ''_'' then like ps cs
      else p = c \<and> like ps cs)"

definition ilike_contains :: "string option \<Rightarrow> string \<Rightarrow> bool" where
  "ilike_contains column needle =
     (case column of
        None \<Rightarrow> False
      | Some s \<Rightarrow> like (lower (''%'' @ needle @ ''%'')) (lower s))"

definition closes_within :: "timestamp \<Rightarrow> timestamp \<Rightarrow> TenderRecord \<Rightarrow> bool" where
  "closes_within lo hi r =
     (case closing_date r of None \<Rightarrow> False | Some c \<Rightarrow> lo < c \<and> c \<le> hi)"

text \<open>
  Lines 452 to 478. \<open>utcnow\<close> is \<open>datetime.utcnow()\<close>; a status other than the four
  known ones filters nothing, and neither does an empty string.
\<close>

definition status_filter :: "timestamp \<Rightarrow> string option \<Rightarrow> TenderRecord \<Rightarrow> bool" where
  "status_filter utcnow status r =
     (case status of
        None \<Rightarrow> True
      | Some st \<Rightarrow>
          if st = [] then True
          else if st = ''open'' then
            (case closing_date r of None \<Rightarrow> False | Some c \<Rightarrow> c > utcnow)
          else if st = ''closed'' then
            (case closing_date r of None \<Rightarrow> False | Some c \<Rightarrow> c \<le> utcnow)
          else if st = ''closing_soon'' then
            closes_within utcnow (utcnow + 3 * microseconds_per_day) r
          else if st = ''open_week'' then
            closes_within utcnow (utcnow + 7 * microseconds_per_day) r
          else True)"

definition text_filter :: "(TenderRecord \<Rightarrow> string option) \<Rightarrow> string option \<Rightarrow> TenderRecord \<Rightarrow> bool" where
  "text_filter column needle r =
     (case needle of
        None \<Rightarrow> True
      | Some n \<Rightarrow> if n = [] then True else ilike_contains (column r) n)"

definition days_filter :: "timestamp \<Rightarrow> int option \<Rightarrow> TenderRecord \<Rightarrow> bool" where
  "days_filter utcnow days_remaining r =
     (case days_remaining of
        None \<Rightarrow> True
      | Some n \<Rightarrow>
          (case closing_date r of
             None \<Rightarrow> False
           | Some c \<Rightarrow> c \<le> utcnow + n * microseconds_per_day))"

text \<open>
  Line 481: \<open>order_by(TenderRecord.closing_date.asc())\<close>. SQLite takes NULL as smaller
  than any other value, as the order on \<open>option\<close> takes \<open>None\<close>; records with the same
  closing date are kept in the order of the table.
\<close>

definition query_records ::
  "timestamp \<Rightarrow> db \<Rightarrow> string option \<Rightarrow> string option \<Rightarrow> string option \<Rightarrow> int option \<Rightarrow> TenderRecord list" where
  "query_records utcnow rows status category_arg entity days_remaining =
     sort_key closing_date
       (filter (\<lambda>r. status_filter utcnow status r \<and> text_filter category category_arg r \<and>
                     text_filter procuring_entity entity r \<and>
                     days_filter utcnow days_remaining r) rows)"

text \<open>
  Lines 485 to 503: each record becomes a dictionary of seven fields, with the closing
  date as the \<open>datetime\<close> object of the column; the dictionary is formatted, and with
  \<open>offline\<close> it is skipped when its \<open>offline_available\<close> is falsy.
\<close>

definition text_value :: "string option \<Rightarrow> pyval" where
  "text_value c = (case c of None \<Rightarrow> PNone | Some s \<Rightarrow> PStr s)"

definition date_value :: "timestamp option \<Rightarrow> pyval" where
  "date_value c = (case c of None \<Rightarrow> PNone | Some ts \<Rightarrow> PDatetime ts)"

definition record_tender :: "TenderRecord \<Rightarrow> tender" where
  "record_tender r =
     [''reference'' \<mapsto> text_value (reference r),
      ''title'' \<mapsto> text_value (title r),
      ''procuring_entity'' \<mapsto> text_value (procuring_entity r),
      ''category'' \<mapsto> text_value (category r),
      ''closing_date'' \<mapsto> date_value (closing_date r),
      ''document_url'' \<mapsto> text_value (document_url r),
      ''source'' \<mapsto> text_value (source r)]"

definition get_mobile_tenders ::
  "libs \<Rightarrow> timestamp \<Rightarrow> timestamp \<Rightarrow> db \<Rightarrow> string option \<Rightarrow> string option \<Rightarrow> string option
     \<Rightarrow> int option \<Rightarrow> bool \<Rightarrow> tender list" where
  "get_mobile_tenders lib utcnow now rows status category_arg entity days_remaining offline =
     filter (\<lambda>tender. \<not> (offline \<and> \<not> truthy (tget tender ''offline_available'')))
       (map (\<lambda>r. format_tender_for_mobile lib now (record_tender r))
          (query_records utcnow rows status category_arg entity days_remaining))"

text \<open>The order of SQLite on a nullable column, written out.\<close>

definition sqlite_le :: "timestamp option \<Rightarrow> timestamp option \<Rightarrow> bool" where
  "sqlite_le a b =
     (case a of None \<Rightarrow> True | Some x \<Rightarrow> (case b of None \<Rightarrow> False | Some y \<Rightarrow> x \<le> y))"

section \<open>Example tenders\<close>

text \<open>
  Concrete tenders for the worked examples below: one tender from the first site, the same
  tender scraped again with another title and a later closing date, the same tender with
  no closing date, and a tender of the second site that carries the same reference.
  \<open>strict_to_datetime\<close> is \<open>pandas.to_datetime\<close> with a flexible parse that accepts
  nothing.
\<close>

definition example_tender :: tender where
  "example_tender =
     [''reference'' \<mapsto> PStr ''KE/001'', ''title'' \<mapsto> PStr ''Supply of desks'',
      ''source'' \<mapsto> PStr ''mygov'', ''closing_date'' \<mapsto> PStr ''15 March 2024'']"


definition example_tender_undated :: tender where
  "example_tender_undated =
     [''reference'' \<mapsto> PStr ''KE/001'', ''title'' \<mapsto> PStr ''Supply of chairs'',
      ''source'' \<mapsto> PStr ''mygov'', ''closing_date'' \<mapsto> PNone]"


definition stored_example :: TenderRecord where
  "stored_example = new_record 1 100 example_tender (Some (midnight 2024 3 15)) None"


text \<open>
  Libraries for the worked examples of the formatter: a parser that accepts no string,
  an \<open>isoformat\<close> that prints the count of microseconds, a machine on UTC, and words
  that are not cut (the example texts have no hyphen). A title of 125 characters with a
  run of 100 spaces in it, a title of 21 words, a stored record without closing date,
  and tenders that carry them.
\<close>

definition example_libs :: libs where
  "example_libs =
     \<lparr> parse = (\<lambda>s. Inl ValueError), isoformat = show_int, local_offset = 0,
       wordsep_re = (\<lambda>w. [w]) \<rparr>"

definition example_spaced_title :: string where
  "example_spaced_title = ''Supply of desks'' @ replicate 100 CHR '' '' @ ''and chairs''"

definition example_long_title :: string where
  "example_long_title = concat (replicate 21 ''desks ''  )"

definition undated_record :: TenderRecord where
  "undated_record =
     new_record 2 100 [''reference'' \<mapsto> PStr ''KE/002'', ''title'' \<mapsto> PStr ''Supply of ink'',
                       ''source'' \<mapsto> PStr ''mygov''] None None"

definition example_long_tender :: tender where
  "example_long_tender =
     [''reference'' \<mapsto> PStr ''KE/003'', ''title'' \<mapsto> PStr example_long_title,
      ''description'' \<mapsto> PStr ''Desks for schools'', ''source'' \<mapsto> PStr ''ppip'']"

definition example_spaced_tender :: tender where
  "example_spaced_tender =
     [''reference'' \<mapsto> PStr ''KE/004'', ''title'' \<mapsto> PStr example_spaced_title,
      ''source'' \<mapsto> PStr ''mygov'', ''closing_date'' \<mapsto> PNone]"

text \<open>
  Notions for the proofs about \<open>textwrap.shorten\<close>: a word is \<open>solid\<close> when it is
  not empty and has no whitespace; \<open>word_chunks\<close> are the chunks of a list of words
  joined by single spaces, each word cut by \<open>wordsep\<close>; a list of chunks is \<open>tidy\<close>
  when every chunk is a single space or solid and the first and the last are solid.
\<close>

definition solid :: "string \<Rightarrow> bool" where
  "solid s = (s \<noteq> [] \<and> list_all (\<lambda>c. \<not> isspace c) s)"

fun word_chunks :: "(string \<Rightarrow> string list) \<Rightarrow> string list \<Rightarrow> string list" where
  "word_chunks wordsep [] = []"
| "word_chunks wordsep [w] = wordsep w"
| "word_chunks wordsep (w # w' # ws) = wordsep w @ [[CHR '' '']] @ word_chunks wordsep (w' # ws)"

definition tidy :: "string list \<Rightarrow> bool" where
  "tidy chunks \<longleftrightarrow>
     chunks \<noteq> [] \<and> list_all (\<lambda>c. c = [CHR '' ''] \<or> solid c) chunks \<and>
     solid (hd chunks) \<and> solid (last chunks)"

section \<open>Properties of the date normaliser\<close>

text \<open>
  Claim C4. Whatever \<open>pandas.to_datetime\<close> does, a string whose lower-cased form
  contains one of the placeholder tokens "various", "multiple", "closing", "date" or
  "www" normalises to \<open>None\<close>, also when the rest of the string is a valid date.
\<close>

theorem blocklisted_date_is_none:
  assumes "tok \<in> set blocklist" and "contains (lower date_str) tok"
  shows "parse_kenyan_date td (PStr date_str) = Inr None"
proof -
  from assms have "list_ex (\<lambda>x. contains (lower date_str) x) blocklist"
    unfolding list_ex_iff by blast
  then show ?thesis
    by (simp add: parse_kenyan_date_def)
qed

theorem blocklisted_date_is_none_witness:
  "''closing'' \<in> set blocklist \<and>
   contains (lower ''15 March 2024 (Closing)'') ''closing'' \<and>
   parse_kenyan_date (pandas_to_datetime (\<lambda>s. Inl ValueError)) (PStr ''15 March 2024 (Closing)'')
     = Inr None"
  using blocklisted_date_is_none
    [of "''closing''" "''15 March 2024 (Closing)''" "pandas_to_datetime (\<lambda>s. Inl ValueError)"]
  by (simp add: blocklist_def lower_def lower_char_def)


text \<open>
  Claim C5. With the format parse of \<open>pandas.to_datetime\<close> as modelled above, and
  whatever its flexible parse does, the four strings "15 March 2024", "15/03/2024",
  "2024-03-15" and "15.03.2024" are all accepted and all give the same timestamp:
  midnight of the calendar date 2024-03-15.
\<close>

theorem four_formats_same_date:
  "parse_kenyan_date (pandas_to_datetime flexible) (PStr ''15 March 2024'')
     = Inr (Some (midnight 2024 3 15)) \<and>
   parse_kenyan_date (pandas_to_datetime flexible) (PStr ''15/03/2024'')
     = Inr (Some (midnight 2024 3 15)) \<and>
   parse_kenyan_date (pandas_to_datetime flexible) (PStr ''2024-03-15'')
     = Inr (Some (midnight 2024 3 15)) \<and>
   parse_kenyan_date (pandas_to_datetime flexible) (PStr ''15.03.2024'')
     = Inr (Some (midnight 2024 3 15))"
  by code_simp

section \<open>Properties of the persistence store\<close>

lemma update_first_length: "length (update_first P f xs) = length xs"
  by (induction xs) auto






























section \<open>Properties of the fetcher\<close>











section \<open>Properties of \<open>textwrap.shorten\<close>\<close>

text \<open>
  The collapsed text is a list of solid words joined by single spaces, so its chunks are
  tidy and concatenate to it. If it fits the width, the wrap returns it as its one line;
  otherwise the one permitted line is cut and ends with the placeholder.
\<close>

lemma solid_not_blank: "solid s \<Longrightarrow> \<not> is_blank s"
  by (cases s) (auto simp: solid_def is_blank_def)

lemma textwrap_whitespace_isspace: "textwrap_whitespace c \<Longrightarrow> isspace c"
  by (auto simp: textwrap_whitespace_def isspace_def)

lemma isspace_space: "isspace CHR '' ''" and textwrap_whitespace_space: "textwrap_whitespace CHR '' ''"
  by (simp_all add: isspace_def textwrap_whitespace_def)

lemma split_words_solid: "w \<in> set (split_words s) \<Longrightarrow> solid w"
proof (induction s arbitrary: w rule: split_words.induct)
  case 1
  then show ?case by simp
next
  case (2 c cs)
  show ?case
  proof (cases "isspace c")
    case True
    with 2 show ?thesis by simp
  next
    case False
    with "2.prems" consider "w = c # takeWhile (\<lambda>x. \<not> isspace x) cs"
      | "w \<in> set (split_words (dropWhile (\<lambda>x. \<not> isspace x) cs))"
      by auto
    then show ?thesis
    proof cases
      case 1
      have "list_all (\<lambda>c. \<not> isspace c) (takeWhile (\<lambda>x. \<not> isspace x) cs)"
        by (auto simp: list_all_iff dest: set_takeWhileD)
      with 1 False show ?thesis by (simp add: solid_def)
    next
      case 2
      with "2.IH"(2) False show ?thesis by simp
    qed
  qed
qed

lemma solid_no_textwrap: "solid w \<Longrightarrow> x \<in> set w \<Longrightarrow> \<not> textwrap_whitespace x"
  by (auto simp: solid_def list_all_iff dest: textwrap_whitespace_isspace)

lemma join_starts_solid:
  assumes "ws \<noteq> []" "\<forall>w \<in> set ws. solid w"
  shows "\<exists>d r. join [CHR '' ''] ws = d # r \<and> \<not> textwrap_whitespace d"
proof -
  from assms obtain w ws' where ws: "ws = w # ws'" by (cases ws) auto
  with assms(2) have sw: "solid w" by simp
  then obtain d w' where w: "w = d # w'" by (cases w) (auto simp: solid_def)
  with sw have "\<not> textwrap_whitespace d" by (auto dest: solid_no_textwrap)
  with ws w show ?thesis by (cases ws') auto
qed

lemma split_chunks_solid_prefix:
  assumes "solid w" "r = [] \<or> textwrap_whitespace (hd r)"
  shows "split_chunks wordsep (w @ r) = wordsep w @ split_chunks wordsep r"
proof -
  from assms(1) obtain d w' where w: "w = d # w'" by (cases w) (auto simp: solid_def)
  from assms(1) have nt: "\<forall>x \<in> set w. \<not> textwrap_whitespace x"
    by (auto dest: solid_no_textwrap)
  have tw: "takeWhile (\<lambda>x. \<not> textwrap_whitespace x) (w @ r) = w"
    using nt assms(2) by (cases r) (auto simp: takeWhile_tail)
  have dw: "dropWhile (\<lambda>x. \<not> textwrap_whitespace x) (w' @ r) = r"
    using nt w assms(2) by (cases r) (auto simp: dropWhile_append3)
  from nt w have "\<not> textwrap_whitespace d" by simp
  with tw dw w show ?thesis by simp
qed

lemma split_chunks_space:
  assumes "r = d # r'" "\<not> textwrap_whitespace d"
  shows "split_chunks wordsep (CHR '' '' # r) = [CHR '' ''] # split_chunks wordsep r"
  using assms by (simp add: textwrap_whitespace_space)

lemma split_chunks_join:
  "\<forall>w \<in> set ws. solid w \<Longrightarrow> split_chunks wordsep (join [CHR '' ''] ws) = word_chunks wordsep ws"
proof (induction "[CHR '' '']" ws rule: join.induct)
  case 1
  then show ?case by simp
next
  case (2 x)
  then show ?case
    using split_chunks_solid_prefix [of x "[]" wordsep] by simp
next
  case (3 x y ys)
  from "3.prems" have sx: "solid x" and rest: "\<forall>w \<in> set (y # ys). solid w" by auto
  from join_starts_solid [OF _ rest] obtain d r where
    j: "join [CHR '' ''] (y # ys) = d # r" and d: "\<not> textwrap_whitespace d" by auto
  have "split_chunks wordsep (x @ CHR '' '' # join [CHR '' ''] (y # ys))
      = wordsep x @ split_chunks wordsep (CHR '' '' # join [CHR '' ''] (y # ys))"
    using split_chunks_solid_prefix [OF sx, of "CHR '' '' # join [CHR '' ''] (y # ys)" wordsep]
    by (simp add: textwrap_whitespace_space)
  also have "\<dots> = wordsep x @ [CHR '' ''] # split_chunks wordsep (join [CHR '' ''] (y # ys))"
    using split_chunks_space [OF j d] j by simp
  finally show ?case using "3.hyps" [OF rest] by simp
qed

lemma munge_join:
  "\<forall>w \<in> set ws. solid w \<Longrightarrow> munge_whitespace (join [CHR '' ''] ws) = join [CHR '' ''] ws"
proof (induction "[CHR '' '']" ws rule: join.induct)
  case 1
  then show ?case by (simp add: munge_whitespace_def)
next
  case (2 x)
  then have "\<forall>c \<in> set x. \<not> textwrap_whitespace c" by (auto dest: solid_no_textwrap)
  then show ?case by (simp add: munge_whitespace_def map_idI)
next
  case (3 x y ys)
  then have "\<forall>c \<in> set x. \<not> textwrap_whitespace c" by (auto dest: solid_no_textwrap)
  then have "map (\<lambda>c. if textwrap_whitespace c then CHR '' '' else c) x = x"
    by (simp add: map_idI)
  with 3 show ?case by (simp add: munge_whitespace_def)
qed

lemma concat_word_chunks:
  "\<forall>w. concat (wordsep w) = w \<Longrightarrow> concat (word_chunks wordsep ws) = join [CHR '' ''] ws"
  by (induction wordsep ws rule: word_chunks.induct) auto

lemma concat_filter_nonempty: "concat (filter (\<lambda>c. c \<noteq> []) xs) = concat xs"
  by (induction xs) auto

lemma piece_solid:
  assumes "concat (wordsep w) = w" "solid w" "c \<in> set (wordsep w)" "c \<noteq> []"
  shows "solid c"
proof -
  from assms(3) have "set c \<subseteq> set (concat (wordsep w))" by auto
  with assms show ?thesis by (auto simp: solid_def list_all_iff)
qed

lemma word_chunks_kinds:
  assumes "\<forall>w. concat (wordsep w) = w" "\<forall>w \<in> set ws. solid w"
    and "c \<in> set (word_chunks wordsep ws)" "c \<noteq> []"
  shows "c = [CHR '' ''] \<or> solid c"
  using assms
proof (induction wordsep ws rule: word_chunks.induct)
  case (1 wordsep)
  then show ?case by simp
next
  case (2 wordsep w)
  then show ?case using piece_solid [of wordsep w c] by simp
next
  case (3 wordsep w w' ws)
  then show ?case using piece_solid [of wordsep w c] by auto
qed

lemma has_nonempty_piece:
  assumes "concat (wordsep w) = w" "solid w"
  shows "filter (\<lambda>c. c \<noteq> []) (wordsep w) \<noteq> []"
proof
  assume "filter (\<lambda>c. c \<noteq> []) (wordsep w) = []"
  then have "concat (filter (\<lambda>c. c \<noteq> []) (wordsep w)) = []" by simp
  with assms show False by (simp add: concat_filter_nonempty solid_def)
qed

lemma hd_filter_mem: "filter P xs \<noteq> [] \<Longrightarrow> hd (filter P xs) \<in> set xs \<and> P (hd (filter P xs))"
  by (induction xs) auto

lemma last_filter_mem:
  "filter P xs \<noteq> [] \<Longrightarrow> last (filter P xs) \<in> set xs \<and> P (last (filter P xs))"
  by (induction xs) auto

lemma word_chunks_first:
  assumes "\<forall>w. concat (wordsep w) = w" "\<forall>w \<in> set ws. solid w" "ws \<noteq> []"
  shows "filter (\<lambda>c. c \<noteq> []) (word_chunks wordsep ws) \<noteq> [] \<and>
         solid (hd (filter (\<lambda>c. c \<noteq> []) (word_chunks wordsep ws)))"
proof -
  from assms(3) obtain w ws' where ws: "ws = w # ws'" by (cases ws) auto
  with assms have w: "concat (wordsep w) = w" "solid w" by auto
  let ?f = "filter (\<lambda>c. c \<noteq> []) (wordsep w)"
  from has_nonempty_piece [of wordsep w, OF w] have ne: "?f \<noteq> []" .
  from hd_filter_mem [OF ne] have "hd ?f \<in> set (wordsep w)" "hd ?f \<noteq> []" by auto
  with piece_solid [of wordsep w, OF w] have "solid (hd ?f)" by blast
  moreover have "\<exists>r. filter (\<lambda>c. c \<noteq> []) (word_chunks wordsep ws) = ?f @ r"
    using ws by (cases ws') auto
  ultimately show ?thesis using ne by auto
qed

lemma word_chunks_snoc:
  "ws \<noteq> [] \<Longrightarrow> \<exists>r. word_chunks wordsep ws = r @ wordsep (last ws)"
  by (induction wordsep ws rule: word_chunks.induct) auto

lemma word_chunks_last:
  assumes "\<forall>w. concat (wordsep w) = w" "\<forall>w \<in> set ws. solid w" "ws \<noteq> []"
  shows "solid (last (filter (\<lambda>c. c \<noteq> []) (word_chunks wordsep ws)))"
proof -
  from assms have w: "concat (wordsep (last ws)) = last ws" "solid (last ws)" by auto
  let ?f = "filter (\<lambda>c. c \<noteq> []) (wordsep (last ws))"
  from has_nonempty_piece [of wordsep "last ws", OF w] have ne: "?f \<noteq> []" .
  from last_filter_mem [OF ne] have "last ?f \<in> set (wordsep (last ws))" "last ?f \<noteq> []"
    by auto
  with piece_solid [of wordsep "last ws", OF w] have "solid (last ?f)" by blast
  moreover from word_chunks_snoc [OF assms(3), of wordsep] obtain r where
    "word_chunks wordsep ws = r @ wordsep (last ws)" ..
  ultimately show ?thesis using ne by simp
qed

lemma take_fitting_le:
  "take_fitting width chunks cur_line cur_len = (cur_line', cur_len', rest) \<Longrightarrow>
   cur_len \<le> width \<Longrightarrow> cur_len' \<le> width"
  by (induction width chunks cur_line cur_len rule: take_fitting.induct)
     (auto split: if_splits)

lemma take_fitting_all:
  "cur_len + length (concat chunks) \<le> width \<Longrightarrow>
   take_fitting width chunks cur_line cur_len =
     (cur_line @ chunks, cur_len + length (concat chunks), [])"
  by (induction width chunks cur_line cur_len rule: take_fitting.induct) auto

lemma fill_line_len:
  assumes "fill_line width started chunks = (cur_line, cur_len, rest)"
  shows "cur_len = length (concat cur_line)"
proof -
  define chunks1 where "chunks1 =
    (case chunks of [] \<Rightarrow> [] | c # cs \<Rightarrow> if is_blank c \<and> started then cs else chunks)"
  obtain cl len chunks2 where tf: "take_fitting width chunks1 [] 0 = (cl, len, chunks2)"
    by (cases "take_fitting width chunks1 [] 0") auto
  from take_fitting_split [OF tf] have len: "len = length (concat cl)" by auto
  have drop_last: "length (concat xs) - length (last xs) = length (concat (butlast xs))"
    if "xs \<noteq> []" for xs :: "string list"
    using that by (induction xs rule: rev_induct) auto
  from assms tf len show ?thesis
    by (auto simp: fill_line_def chunks1_def [symmetric] Let_def drop_last
        split: list.splits if_splits prod.splits)
qed

lemma handle_long_word_parts:
  assumes "handle_long_word width cur_len chunk = (piece, rest)" "0 < width"
  shows "\<exists>e. e \<le> width - cur_len \<and> piece = take e chunk \<and> rest = drop e chunk \<and>
             (cur_len < width \<longrightarrow> 0 < e)"
proof -
  have "rfind x s = Some i \<Longrightarrow> i < length s" for x s i
    by (induction s arbitrary: i) (auto split: option.splits if_splits)
  then have h: "rfind CHR ''-'' (take (width - cur_len) chunk) = Some h \<Longrightarrow> h < width - cur_len"
    for h by fastforce
  define e where "e =
    (if length chunk > width - cur_len
     then (case rfind CHR ''-'' (take (width - cur_len) chunk) of
             Some hyphen \<Rightarrow>
               if hyphen > 0 \<and> list_ex (\<lambda>c. c \<noteq> CHR ''-'') (take hyphen chunk)
               then hyphen + 1 else width - cur_len
           | None \<Rightarrow> width - cur_len)
     else width - cur_len)"
  from assms have "piece = take e chunk" "rest = drop e chunk"
    by (auto simp: handle_long_word_def Let_def e_def)
  moreover have "e \<le> width - cur_len"
    using h by (auto simp: e_def split: option.splits)
  moreover have "cur_len < width \<longrightarrow> 0 < e"
    by (auto simp: e_def split: option.splits)
  ultimately show ?thesis by blast
qed

lemma add_placeholder_result:
  "add_placeholder width placeholder rev_line cur_len = Some line \<Longrightarrow>
   cur_len = length (concat (rev rev_line)) \<Longrightarrow>
   length line \<le> width \<and> (\<exists>p. line = p @ placeholder)"
proof (induction width placeholder rev_line cur_len rule: add_placeholder.induct)
  case (1 width placeholder cur_len)
  then show ?case by simp
next
  case (2 width placeholder c rev_line cur_len)
  show ?case
  proof (cases "\<not> is_blank c \<and> cur_len + length placeholder \<le> width")
    case True
    with "2.prems" show ?thesis by auto
  next
    case False
    with "2.prems" have "add_placeholder width placeholder rev_line (cur_len - length c) = Some line"
      by auto
    moreover from "2.prems" have "cur_len - length c = length (concat (rev rev_line))" by simp
    ultimately show ?thesis using "2.IH" [OF False] by blast
  qed
qed

lemma fill_line_fits:
  assumes "tidy chunks" "length (concat chunks) \<le> width"
  shows "fill_line width False chunks = (chunks, length (concat chunks), [])"
proof -
  from assms(1) have "\<not> is_blank (last chunks)" "chunks \<noteq> []"
    by (auto simp: tidy_def dest: solid_not_blank)
  with take_fitting_all [of 0 chunks width "[]"] assms(2) show ?thesis
    by (auto simp: fill_line_def Let_def split: list.splits)
qed

lemma fill_line_overflow:
  assumes "tidy chunks" "0 < width" "width < length (concat chunks)"
    and fl: "fill_line width False chunks = (cur_line, cur_len, rest)"
  shows "cur_line \<noteq> [] \<and> rest \<noteq> [] \<and> (length rest = 1 \<longrightarrow> \<not> is_blank (hd rest))"
proof -
  from assms(1) have ne: "chunks \<noteq> []"
    and kinds: "\<forall>c \<in> set chunks. c = [CHR '' ''] \<or> solid c"
    and first: "solid (hd chunks)" and final: "solid (last chunks)"
    by (auto simp: tidy_def list_all_iff)
  obtain popped len chunks2 where tf: "take_fitting width chunks [] 0 = (popped, len, chunks2)"
    by (cases "take_fitting width chunks [] 0") auto
  from take_fitting_split [OF tf] have
    p: "chunks = popped @ chunks2" "len = length (concat popped)"
       "case chunks2 of [] \<Rightarrow> True | c # _ \<Rightarrow> \<not> len + length c \<le> width"
    by auto
  from take_fitting_le [OF tf] have le: "len \<le> width" by simp
  from p(1,2) le assms(3) obtain c cs where c: "chunks2 = c # cs" by (cases chunks2) auto
  with p(3) have nofit: "\<not> len + length c \<le> width" by simp
  have chunks1: "(case chunks of [] \<Rightarrow> [] | c # cs \<Rightarrow> if is_blank c \<and> False then cs else chunks)
      = chunks" by (cases chunks) auto
  show ?thesis
  proof (cases "width < length c")
    case True
    obtain piece r where hl: "handle_long_word width len c = (piece, r)"
      by (cases "handle_long_word width len c") auto
    from handle_long_word_parts [OF hl assms(2)] obtain e where
      e: "e \<le> width - len" "piece = take e c" "r = drop e c" "len < width \<longrightarrow> 0 < e" by blast
    from c p(1) kinds have "c = [CHR '' ''] \<or> solid c" by auto
    with True assms(2) have sc: "solid c" by auto
    from e(1,3) True have rne: "r \<noteq> []" by simp
    have "set r \<subseteq> set c" using e(3) by (auto dest: in_set_dropD)
    with sc rne have "solid r" by (auto simp: solid_def list_all_iff)
    then have rb: "\<not> is_blank r" by (rule solid_not_blank)
    have res: "cur_line = (if is_blank piece then popped else popped @ [piece])" "rest = r # cs"
      using fl tf c True hl
      by (auto simp: fill_line_def chunks1 Let_def split: if_splits)
    have "cur_line \<noteq> []"
    proof (cases "is_blank piece")
      case False
      with res show ?thesis by simp
    next
      case blank: True
      have "e = 0"
      proof (rule ccontr)
        assume "e \<noteq> 0"
        with e(2) sc have "piece \<noteq> []" "set piece \<subseteq> set c"
          by (auto simp: solid_def dest: in_set_takeD)
        with sc have "solid piece" by (auto simp: solid_def list_all_iff)
        with blank show False by (auto dest: solid_not_blank)
      qed
      with e(4) le have "len = width" by auto
      with assms(2) p(2) have "popped \<noteq> []" by auto
      with blank res show ?thesis by simp
    qed
    with res rb show ?thesis by auto
  next
    case False
    from False nofit have "len \<noteq> 0" by auto
    with p(2) have pne: "popped \<noteq> []" by auto
    have res: "cur_line = (if is_blank (last popped) then butlast popped else popped)"
      "rest = c # cs"
      using fl tf c False pne
      by (auto simp: fill_line_def chunks1 Let_def split: if_splits)
    from pne p(1) first have "solid (hd popped)" by (cases popped) auto
    then have hb: "\<not> is_blank (hd popped)" by (rule solid_not_blank)
    have "cur_line \<noteq> []"
    proof (cases "is_blank (last popped)")
      case False
      with res pne show ?thesis by simp
    next
      case True
      with hb have "last popped \<noteq> hd popped" by auto
      with pne have "butlast popped \<noteq> []"
        by (cases popped) (auto split: if_splits)
      with True res show ?thesis by simp
    qed
    moreover have "\<not> is_blank (hd rest)" if "length rest = 1"
    proof -
      from that res have "cs = []" by simp
      with c p(1) have "last chunks = c" by simp
      with final res show ?thesis by (auto dest: solid_not_blank)
    qed
    ultimately show ?thesis using res by auto
  qed
qed

lemma wrap_loop_fits:
  assumes "tidy chunks" "0 < width" "length (concat chunks) \<le> width"
  shows "wrap_loop width 1 placeholder [] chunks = [concat chunks]"
proof -
  from assms(1) have ne: "chunks \<noteq> []" by (simp add: tidy_def)
  have stop: "wrap_loop width 1 placeholder [concat chunks] [] = [concat chunks]"
    by (subst wrap_loop.simps) simp
  show ?thesis
    using ne assms(2,3) stop
    by (subst wrap_loop.simps) (simp add: fill_line_fits [OF assms(1,3)])
qed

lemma wrap_loop_overflow:
  assumes "tidy chunks" "0 < width" "width < length (concat chunks)"
    "length (lstrip placeholder) \<le> width"
  shows "\<exists>line. wrap_loop width 1 placeholder [] chunks = [line] \<and> length line \<le> width \<and>
           (\<exists>p. line = p @ lstrip placeholder)"
proof -
  from assms(1) have ne: "chunks \<noteq> []" by (simp add: tidy_def)
  obtain cl len rest where fl: "fill_line width False chunks = (cl, len, rest)"
    by (cases "fill_line width False chunks") auto
  from fill_line_overflow [OF assms(1-3) fl] have
    o: "cl \<noteq> []" "rest \<noteq> []" "length rest = 1 \<longrightarrow> \<not> is_blank (hd rest)" by auto
  from fill_line_len [OF fl] have len: "len = length (concat (rev (rev cl)))" by simp
  have w: "wrap_loop width 1 placeholder [] chunks =
      (case add_placeholder width placeholder (rev cl) len of
         Some line \<Rightarrow> [line] | None \<Rightarrow> [lstrip placeholder])"
    using ne assms(2) o by (subst wrap_loop.simps) (auto simp: fl split: option.splits)
  show ?thesis
  proof (cases "add_placeholder width placeholder (rev cl) len")
    case None
    with w assms(4) show ?thesis by auto
  next
    case (Some line)
    from add_placeholder_result [OF Some len] obtain p where
      "length line \<le> width" "line = p @ placeholder" by blast
    moreover have "placeholder = takeWhile isspace placeholder @ lstrip placeholder"
      by (simp add: lstrip_def)
    ultimately have "length line \<le> width \<and>
        line = (p @ takeWhile isspace placeholder) @ lstrip placeholder" by simp
    with w Some show ?thesis by auto
  qed
qed

lemma chunks_of_collapse:
  assumes "\<forall>w. concat (wordsep w) = w"
  shows "concat (split_text wordsep (munge_whitespace (collapse text))) = collapse text \<and>
         (collapse text = [] \<longrightarrow> split_text wordsep (munge_whitespace (collapse text)) = []) \<and>
         (collapse text \<noteq> [] \<longrightarrow> tidy (split_text wordsep (munge_whitespace (collapse text))))"
proof -
  define ws where "ws = split_words (strip text)"
  have solid: "\<forall>w \<in> set ws. solid w"
    by (auto simp: ws_def dest: split_words_solid)
  have c: "collapse text = join [CHR '' ''] ws"
    by (simp add: collapse_def ws_def)
  let ?chunks = "filter (\<lambda>c. c \<noteq> []) (word_chunks wordsep ws)"
  have chunks: "split_text wordsep (munge_whitespace (collapse text)) = ?chunks"
    by (simp add: split_text_def c munge_join [OF solid] split_chunks_join [OF solid])
  have cc: "concat ?chunks = collapse text"
    by (simp add: concat_filter_nonempty concat_word_chunks [OF assms] c)
  have empty: "?chunks = []" if "collapse text = []"
  proof (cases ws)
    case Nil
    then show ?thesis by simp
  next
    case (Cons w ws')
    with solid have "w \<noteq> []" by (auto simp: solid_def)
    with Cons that c show ?thesis by (cases ws') auto
  qed
  have tidy: "tidy ?chunks" if "collapse text \<noteq> []"
  proof -
    from that c have ne: "ws \<noteq> []" by auto
    from word_chunks_first [OF assms solid ne] word_chunks_last [OF assms solid ne]
    have "?chunks \<noteq> []" "solid (hd ?chunks)" "solid (last ?chunks)" by auto
    moreover have "list_all (\<lambda>c. c = [CHR '' ''] \<or> solid c) ?chunks"
      using word_chunks_kinds [OF assms solid] by (auto simp: list_all_iff)
    ultimately show ?thesis by (simp add: tidy_def)
  qed
  from cc empty tidy show ?thesis unfolding chunks by blast
qed

lemma shorten_fits:
  assumes "\<forall>w. concat (wordsep w) = w" "0 < width" "length (lstrip placeholder) \<le> width"
    and "length (collapse text) \<le> width"
  shows "shorten wordsep text width placeholder = Inr (collapse text)"
proof (cases "collapse text = []")
  case True
  with chunks_of_collapse [OF assms(1), of "text"]
  have "split_text wordsep (munge_whitespace (collapse text)) = []" by simp
  with True assms(2,3) show ?thesis
    by (simp add: shorten_def wrap_chunks_def wrap_loop.simps)
next
  case False
  let ?chunks = "split_text wordsep (munge_whitespace (collapse text))"
  from chunks_of_collapse [OF assms(1), of "text"] False
  have t: "tidy ?chunks" and c: "concat ?chunks = collapse text" by auto
  from wrap_loop_fits [OF t assms(2), of placeholder] assms(4) c
  have "wrap_loop width 1 placeholder [] ?chunks = [collapse text]" by simp
  with assms(2,3) show ?thesis
    by (simp add: shorten_def wrap_chunks_def)
qed

lemma shorten_truncates:
  assumes "\<forall>w. concat (wordsep w) = w" "0 < width" "length (lstrip placeholder) \<le> width"
    and "width < length (collapse text)"
  shows "\<exists>r p. shorten wordsep text width placeholder = Inr r \<and> length r \<le> width \<and>
           r = p @ lstrip placeholder"
proof -
  let ?chunks = "split_text wordsep (munge_whitespace (collapse text))"
  from assms(4) have "collapse text \<noteq> []" by auto
  with chunks_of_collapse [OF assms(1), of "text"]
  have t: "tidy ?chunks" and c: "concat ?chunks = collapse text" by auto
  from wrap_loop_overflow [OF t assms(2) _ assms(3)] assms(4) c
  obtain line p where "wrap_loop width 1 placeholder [] ?chunks = [line]"
    "length line \<le> width" "line = p @ lstrip placeholder" by auto
  with assms(2,3) show ?thesis
    by (simp add: shorten_def wrap_chunks_def)
qed

lemma shorten_returns:
  "0 < width \<Longrightarrow> length (lstrip placeholder) \<le> width \<Longrightarrow>
   \<exists>r. shorten ws txt width placeholder = Inr r"
  by (simp add: shorten_def wrap_chunks_def)

lemma lstrip_dots: "lstrip ''...'' = ''...''"
  by (simp add: lstrip_def isspace_def)

lemma shorten_result:
  assumes "\<forall>w. concat (wordsep w) = w" "0 < width" "3 \<le> width"
  shows "\<exists>r. shorten wordsep s width ''...'' = Inr r \<and> length r \<le> width \<and>
     (if length (collapse s) \<le> width then r = collapse s else (\<exists>p. r = p @ ''...''))"
proof (cases "length (collapse s) \<le> width")
  case True
  with shorten_fits [OF assms(1,2), of "''...''" s] assms(3) show ?thesis
    by (simp add: lstrip_dots)
next
  case False
  then have "width < length (collapse s)" by simp
  from shorten_truncates [OF assms(1,2) _ this, of "''...''"] assms(3) False show ?thesis
    by (auto simp: lstrip_dots)
qed

lemma collapse_Nil: "collapse [] = []"
  by code_simp

section \<open>Properties of the formatter\<close>

lemma tget_upd: "tget (t(k \<mapsto> v)) k' = (if k' = k then v else tget t k')"
  by (simp add: tget_def)

lemma localize_field_other: "k' \<noteq> k \<Longrightarrow> localize_field lib k t k' = t k'"
  by (simp add: localize_field_def split: sum.split)

lemma add_status_other:
  "k' \<noteq> ''days_remaining'' \<Longrightarrow> k' \<noteq> ''status'' \<Longrightarrow> add_status lib now t k' = t k'"
  by (simp add: add_status_def Let_def split: sum.split)

lemma shorten_field_other:
  "shorten_field lib k width t = Inr t' \<Longrightarrow> k' \<noteq> k \<Longrightarrow> t' k' = t k'"
  by (auto simp: shorten_field_def split: if_splits pyval.splits sum.splits)

lemma format_keeps:
  assumes "k \<noteq> ''title''" "k \<noteq> ''description''" "k \<noteq> ''last_updated''"
    "k \<noteq> ''offline_available''"
  shows "format_tender_for_mobile lib now t k =
     add_status lib now (localize_field lib ''published_date''
       (localize_field lib ''closing_date'' t)) k"
proof -
  let ?t3 = "add_status lib now (localize_field lib ''published_date''
       (localize_field lib ''closing_date'' t))"
  show ?thesis
  proof (cases "shorten_field lib ''title'' 100 ?t3")
    case (Inl e)
    then show ?thesis by (simp add: format_tender_for_mobile_def Let_def)
  next
    case t4: (Inr t4)
    from shorten_field_other [OF t4, of k] assms have k4: "t4 k = ?t3 k" by simp
    show ?thesis
    proof (cases "shorten_field lib ''description'' 200 t4")
      case (Inl e)
      with t4 k4 show ?thesis by (simp add: format_tender_for_mobile_def Let_def)
    next
      case t5: (Inr t5)
      from shorten_field_other [OF t5, of k] assms have "t5 k = t4 k" by simp
      with t4 t5 k4 assms show ?thesis by (simp add: format_tender_for_mobile_def Let_def)
    qed
  qed
qed

lemma format_title:
  assumes "shorten_field lib ''title'' 100
      (add_status lib now (localize_field lib ''published_date''
         (localize_field lib ''closing_date'' t))) = Inr t4"
  shows "format_tender_for_mobile lib now t ''title'' = t4 ''title''"
proof (cases "shorten_field lib ''description'' 200 t4")
  case (Inl e)
  with assms show ?thesis by (simp add: format_tender_for_mobile_def Let_def)
next
  case (Inr t5)
  from shorten_field_other [OF Inr, of "''title''"] have "t5 ''title'' = t4 ''title''" by simp
  with assms Inr show ?thesis by (simp add: format_tender_for_mobile_def Let_def)
qed

lemma localize_record_closing:
  "tget (localize_field lib ''published_date''
       (localize_field lib ''closing_date'' (record_tender r))) ''closing_date'' = PNone"
proof -
  have "tget (localize_field lib ''closing_date'' (record_tender r)) ''closing_date'' = PNone"
    by (cases "closing_date r")
      (simp_all add: localize_field_def record_tender_def tget_def date_value_def parser_parse_def)
  then show ?thesis
    by (simp add: tget_def localize_field_other)
qed

lemma localize_record_status:
  "localize_field lib ''published_date''
       (localize_field lib ''closing_date'' (record_tender r)) ''status'' = None"
  by (simp add: localize_field_other record_tender_def)

text \<open>
  Claim C2 says that a formatted record without closing date, or with one that cannot be
  parsed, has the status \<open>unknown\<close>. The code writes \<open>status\<close> only under
  \<open>if tender.get('closing_date')\<close> (line 204), so such a record gets no status at all.
  For every stored record, whatever its closing date, whatever the libraries and the
  clock: the view that the query formats has no \<open>status\<close> field, because the closing
  date it hands to \<open>parser.parse\<close> is a \<open>datetime\<close> object, the parse raises
  \<open>TypeError\<close>, and line 189 replaces the closing date by \<open>None\<close>. The same holds for
  the scraped tender without closing date.
\<close>

theorem stored_record_gets_no_status:
  "format_tender_for_mobile lib now (record_tender r) ''status'' = None \<and>
   format_tender_for_mobile lib now example_tender_undated ''status'' = None"
proof -
  have a: "format_tender_for_mobile lib now (record_tender r) ''status'' = None"
    by (simp add: format_keeps add_status_def localize_record_closing localize_record_status)
  have "localize_field lib ''published_date''
       (localize_field lib ''closing_date'' example_tender_undated) = example_tender_undated"
    by (simp add: localize_field_def example_tender_undated_def tget_def)
  then have "format_tender_for_mobile lib now example_tender_undated ''status'' = None"
    by (simp add: format_keeps add_status_def example_tender_undated_def tget_def)
  with a show ?thesis by blast
qed

lemma shorten_field_result:
  assumes "\<forall>w. concat (wordsep_re lib w) = w" "3 \<le> width" "tget t k = PStr s"
  shows "\<exists>r. shorten_field lib k width t = Inr (t(k \<mapsto> PStr r)) \<and>
     length r \<le> width \<and>
     (if length (collapse s) \<le> width then r = collapse s else (\<exists>p. r = p @ ''...''))"
proof (cases "s = []")
  case True
  with assms(3) have "t k = Some (PStr [])"
    by (cases "t k") (simp_all add: tget_def)
  then have "t(k \<mapsto> PStr []) = t" by (simp add: fun_upd_idem)
  with True assms(3) have
    "shorten_field lib k width t = Inr (t(k \<mapsto> PStr [])) \<and> length ([] :: string) \<le> width \<and>
     (if length (collapse s) \<le> width then [] = collapse s else (\<exists>p. [] = p @ ''...''))"
    by (simp add: shorten_field_def collapse_Nil)
  then show ?thesis by blast
next
  case False
  from assms(2) have "0 < width" by simp
  from shorten_result [OF assms(1) this assms(2), of s] obtain r where
    r: "shorten (wordsep_re lib) s width ''...'' = Inr r" "length r \<le> width"
    "if length (collapse s) \<le> width then r = collapse s else (\<exists>p. r = p @ ''...'')"
    by blast
  from False assms(3) r(1) have "shorten_field lib k width t = Inr (t(k \<mapsto> PStr r))"
    by (simp add: shorten_field_def)
  with r(2,3) show ?thesis by blast
qed

text \<open>
  Claim C7, as the code has it. \<open>textwrap.shorten\<close> measures the text after it has
  collapsed the whitespace. For a tender whose title is a string, when \<open>textwrap\<close>'s
  cutting of a word loses no character: the formatted title has at most 100 characters;
  if the collapsed title fits it is the formatted title, without ellipsis; otherwise
  the formatted title is cut and ends with \<open>...\<close>. If the description is a string
  as well, the same holds for it with 200 characters.
\<close>

theorem long_text_is_shortened:
  assumes "\<forall>w. concat (wordsep_re lib w) = w"
    and "tget tender ''title'' = PStr s"
  shows "\<exists>r. tget (format_tender_for_mobile lib now tender) ''title'' = PStr r \<and>
     length r \<le> 100 \<and>
     (if length (collapse s) \<le> 100 then r = collapse s else (\<exists>p. r = p @ ''...'')) \<and>
     (\<forall>d. tget tender ''description'' = PStr d \<longrightarrow>
        (\<exists>q. tget (format_tender_for_mobile lib now tender) ''description'' = PStr q \<and>
           length q \<le> 200 \<and>
           (if length (collapse d) \<le> 200 then q = collapse d else (\<exists>p. q = p @ ''...''))))"
proof -
  let ?t3 = "add_status lib now (localize_field lib ''published_date''
       (localize_field lib ''closing_date'' tender))"
  have s3: "tget ?t3 ''title'' = PStr s"
    using assms(2) by (simp add: tget_def add_status_other localize_field_other)
  from shorten_field_result [OF assms(1) _ s3, of 100] obtain r where
    t4: "shorten_field lib ''title'' 100 ?t3 = Inr (?t3(''title'' \<mapsto> PStr r))"
    and r: "length r \<le> 100"
      "if length (collapse s) \<le> 100 then r = collapse s else (\<exists>p. r = p @ ''...'')"
    by auto
  let ?t4 = "?t3(''title'' \<mapsto> PStr r)"
  from format_title [OF t4]
  have s5: "tget (format_tender_for_mobile lib now tender) ''title'' = PStr r"
    by (simp add: tget_def)
  have descr: "\<exists>q. tget (format_tender_for_mobile lib now tender) ''description'' = PStr q \<and>
           length q \<le> 200 \<and>
           (if length (collapse d) \<le> 200 then q = collapse d else (\<exists>p. q = p @ ''...''))"
    if d: "tget tender ''description'' = PStr d" for d
  proof -
    from d have "tget ?t3 ''description'' = PStr d"
      by (simp add: tget_def add_status_other localize_field_other)
    then have d4: "tget ?t4 ''description'' = PStr d"
      by (simp add: tget_def)
    from shorten_field_result [OF assms(1) _ d4, of 200] obtain q where
      t5: "shorten_field lib ''description'' 200 ?t4 = Inr (?t4(''description'' \<mapsto> PStr q))"
      and q: "length q \<le> 200"
        "if length (collapse d) \<le> 200 then q = collapse d else (\<exists>p. q = p @ ''...'')"
      by auto
    have f: "format_tender_for_mobile lib now tender =
        ?t4(''description'' \<mapsto> PStr q, ''last_updated'' \<mapsto> PStr (isoformat lib now),
            ''offline_available'' \<mapsto> PBool True)"
      unfolding format_tender_for_mobile_def Let_def t4 using t5 by simp
    have "tget (format_tender_for_mobile lib now tender) ''description'' = PStr q"
      unfolding f by (simp add: tget_def)
    with q show ?thesis by blast
  qed
  from s5 r descr show ?thesis by blast
qed

theorem long_text_is_shortened_witness:
  "(\<forall>w. concat (wordsep_re example_libs w) = w) \<and>
   tget example_long_tender ''title'' = PStr example_long_title \<and>
   tget example_long_tender ''description'' = PStr ''Desks for schools'' \<and>
   100 < length (collapse example_long_title) \<and>
   length (collapse ''Desks for schools'') \<le> 200 \<and>
   (\<exists>r q p. tget (format_tender_for_mobile example_libs 0 example_long_tender) ''title'' = PStr r \<and>
     tget (format_tender_for_mobile example_libs 0 example_long_tender) ''description'' = PStr q \<and>
     length r \<le> 100 \<and> r = p @ ''...'' \<and> q = collapse ''Desks for schools'')"
proof -
  have w: "\<forall>w. concat (wordsep_re example_libs w) = w"
    by (simp add: example_libs_def)
  have t: "tget example_long_tender ''title'' = PStr example_long_title"
    and d: "tget example_long_tender ''description'' = PStr ''Desks for schools''"
    by (simp_all add: example_long_tender_def tget_def)
  have l: "100 < length (collapse example_long_title)"
    and m: "length (collapse ''Desks for schools'') \<le> 200"
    by code_simp+
  from long_text_is_shortened [OF w t, of 0] d l m
  have "\<exists>r q p. tget (format_tender_for_mobile example_libs 0 example_long_tender) ''title'' = PStr r \<and>
     tget (format_tender_for_mobile example_libs 0 example_long_tender) ''description'' = PStr q \<and>
     length r \<le> 100 \<and> r = p @ ''...'' \<and> q = collapse ''Desks for schools''"
    by (auto simp: not_le [symmetric])
  with w t d l m show ?thesis by blast
qed

text \<open>
  The claim as written measures the title itself. A title of 125 characters whose
  collapsed form has 26 is longer than 100 characters, and it is returned in its
  collapsed form, with no ellipsis.
\<close>

theorem spaced_title_counterexample:
  "100 < length example_spaced_title \<and>
   tget (format_tender_for_mobile example_libs 0 example_spaced_tender) ''title''
     = PStr ''Supply of desks and chairs''"
  by code_simp

section \<open>Properties of the read-side query\<close>

lemma sqlite_le_iff: "sqlite_le a b \<longleftrightarrow> a \<le> b"
  by (cases a; cases b) (auto simp: sqlite_le_def)

lemma record_title_formats:
  "\<exists>t4. shorten_field lib ''title'' 100
      (add_status lib now (localize_field lib ''published_date''
         (localize_field lib ''closing_date'' (record_tender r)))) = Inr t4 \<and>
     t4 ''description'' = None"
proof -
  let ?t3 = "add_status lib now (localize_field lib ''published_date''
         (localize_field lib ''closing_date'' (record_tender r)))"
  have title: "?t3 ''title'' = Some (text_value (title r))"
    by (simp add: add_status_other localize_field_other record_tender_def)
  have descr: "?t3 ''description'' = None"
    by (simp add: add_status_other localize_field_other record_tender_def)
  show ?thesis
  proof (cases "title r")
    case None
    with title descr show ?thesis
      by (simp add: shorten_field_def tget_def text_value_def)
  next
    case (Some s)
    from shorten_returns [of 100 "''...''" "wordsep_re lib" s] obtain r' where
      "shorten (wordsep_re lib) s 100 ''...'' = Inr r'" by (auto simp: lstrip_dots)
    with Some title descr show ?thesis
      by (auto simp: shorten_field_def tget_def text_value_def)
  qed
qed

lemma record_offline_available:
  "format_tender_for_mobile lib now (record_tender r) ''offline_available'' = Some (PBool True)"
proof -
  from record_title_formats [of lib now r] obtain t4 where
    t4: "shorten_field lib ''title'' 100
      (add_status lib now (localize_field lib ''published_date''
         (localize_field lib ''closing_date'' (record_tender r)))) = Inr t4"
    "t4 ''description'' = None" by blast
  from t4(2) have "shorten_field lib ''description'' 200 t4 = Inr t4"
    by (simp add: shorten_field_def tget_def)
  with t4(1) show ?thesis
    by (simp add: format_tender_for_mobile_def Let_def)
qed

lemma nulls_first_split:
  "sorted (map f q) \<Longrightarrow>
   q = filter (\<lambda>r. f r = (None :: timestamp option)) q @ filter (\<lambda>r. f r \<noteq> None) q"
proof (induction q)
  case Nil
  then show ?case by simp
next
  case (Cons x xs)
  then have ih: "xs = filter (\<lambda>r. f r = None) xs @ filter (\<lambda>r. f r \<noteq> None) xs"
    and le: "\<forall>y \<in> set xs. f x \<le> f y" by auto
  show ?case
  proof (cases "f x")
    case None
    with ih show ?thesis by simp
  next
    case (Some v)
    with le have "\<forall>y \<in> set xs. f y \<noteq> None"
      by (metis less_eq_option_Some_None)
    then have "filter (\<lambda>r. f r = None) xs = []" "filter (\<lambda>r. f r \<noteq> None) xs = xs"
      by (simp_all add: filter_empty_conv filter_id_conv)
    with Some show ?thesis by simp
  qed
qed

text \<open>
  Claim C8, as the code has it. The views of a query are the formatted records of the
  filtered table in ascending order of closing date, where a null closing date counts
  as smaller than every date: the records without closing date come first, before all
  dated records.
\<close>

theorem query_puts_undated_first:
  "sorted_wrt (\<lambda>a b. sqlite_le (closing_date a) (closing_date b))
     (query_records utcnow rows status category_arg entity days_remaining) \<and>
   query_records utcnow rows status category_arg entity days_remaining =
     filter (\<lambda>r. closing_date r = None)
       (query_records utcnow rows status category_arg entity days_remaining) @
     filter (\<lambda>r. closing_date r \<noteq> None)
       (query_records utcnow rows status category_arg entity days_remaining) \<and>
   get_mobile_tenders lib utcnow now rows status category_arg entity days_remaining offline =
     map (\<lambda>r. format_tender_for_mobile lib now (record_tender r))
       (query_records utcnow rows status category_arg entity days_remaining)"
proof -
  let ?q = "query_records utcnow rows status category_arg entity days_remaining"
  have s: "sorted (map closing_date ?q)"
    by (simp add: query_records_def)
  then have "sorted_wrt (\<lambda>a b. closing_date a \<le> closing_date b) ?q"
    by (simp add: sorted_map)
  then have a: "sorted_wrt (\<lambda>a b. sqlite_le (closing_date a) (closing_date b)) ?q"
    by (simp add: sqlite_le_iff)
  note b = nulls_first_split [OF s]
  have c: "get_mobile_tenders lib utcnow now rows status category_arg entity days_remaining offline =
     map (\<lambda>r. format_tender_for_mobile lib now (record_tender r)) ?q"
    by (simp add: get_mobile_tenders_def tget_def record_offline_available filter_map comp_def)
  from a b c show ?thesis by blast
qed

text \<open>
  The claim as written places the records without closing date last. A table that
  holds a dated record and then an undated one is returned with the undated record
  first.
\<close>

theorem undated_record_sorts_first_counterexample:
  "map closing_date [stored_example, undated_record] = [Some (midnight 2024 3 15), None] \<and>
   map closing_date (query_records 0 [stored_example, undated_record] None None None None)
     = [None, Some (midnight 2024 3 15)] \<and>
   map (\<lambda>t. tget t ''reference'')
     (get_mobile_tenders example_libs 0 0 [stored_example, undated_record] None None None None False)
     = [PStr ''KE/002'', PStr ''KE/001'']"
  by code_simp

text \<open>
  Claim C10. For every table, every combination of filters, and whatever the libraries
  and the clocks, the query with \<open>offline=True\<close> returns the list that it returns with
  \<open>offline=False\<close>: the dictionary built from a stored record always passes the
  formatter without exception, so \<open>offline_available\<close> is \<open>True\<close> on every view
  before the filter of line 500 reads it.
\<close>

theorem offline_filter_is_vacuous:
  "get_mobile_tenders lib utcnow now rows status category_arg entity days_remaining True =
   get_mobile_tenders lib utcnow now rows status category_arg entity days_remaining False"
  by (simp add: get_mobile_tenders_def tget_def record_offline_available filter_map comp_def)

end
